theory Spec2Isabelle
  imports Main "HOL-Library.Multiset" "HOL-Library.AList"
begin

section \<open>Cooldown backoff schedule (auth-profiles)\<close>

text \<open>
  \<^verbatim>\<open>calculateAuthProfileCooldownMs(errorCount)\<close>: the error count is clamped from below
  at 1, the exponent \<open>normalized - 1\<close> is capped at 3, and the product is capped at one
  hour. JavaScript numbers are modelled as unbounded integers (error counts and
  millisecond timestamps are integral and far below \<open>2^53\<close>); the exponent passed to
  \<open>**\<close> is between 0 and 3, so \<open>nat\<close> loses nothing.
\<close>

definition calculateAuthProfileCooldownMs :: "int \<Rightarrow> int" where
  "calculateAuthProfileCooldownMs errorCount =
     (let normalized = max 1 errorCount
      in min (60 * 60 * 1000) (60 * 1000 * 5 ^ nat (min (normalized - 1) 3)))"

lemma cooldown_cases:
  "calculateAuthProfileCooldownMs n =
     (if n \<le> 1 then 60000 else if n = 2 then 300000 else if n = 3 then 1500000 else 3600000)"
proof -
  consider "n \<le> 1" | "n = 2" | "n = 3" | "4 \<le> n" by linarith
  then show ?thesis
  proof cases
    case 1
    then have "max 1 n = 1" by simp
    then show ?thesis using 1 by (simp add: calculateAuthProfileCooldownMs_def)
  next
    case 2
    then show ?thesis by (simp add: calculateAuthProfileCooldownMs_def)
  next
    case 3
    then show ?thesis by (simp add: calculateAuthProfileCooldownMs_def)
  next
    case 4
    then have "max 1 n = n" "min (n - 1) 3 = 3" by simp_all
    then show ?thesis using 4
      by (simp add: calculateAuthProfileCooldownMs_def Let_def eval_nat_numeral)
  qed
qed

text \<open>
  C1. For every integer error count \<open>n \<ge> 1\<close> the cooldown is
  \<open>min(1 hour, 1 minute * 5^min(n-1, 3))\<close> milliseconds: 60000, 300000, 1500000 for
  1, 2, 3 and 3600000 from 4 on; the schedule is monotone non-decreasing and never
  exceeds 3600000, whatever the argument.
\<close>

theorem calculateAuthProfileCooldownMs_schedule:
  "(\<forall>n\<ge>1. calculateAuthProfileCooldownMs n
        = min 3600000 (60000 * 5 ^ nat (min (n - 1) 3)))
   \<and> calculateAuthProfileCooldownMs 1 = 60000
   \<and> calculateAuthProfileCooldownMs 2 = 300000
   \<and> calculateAuthProfileCooldownMs 3 = 1500000
   \<and> (\<forall>n\<ge>4. calculateAuthProfileCooldownMs n = 3600000)
   \<and> (\<forall>m n. m \<le> n \<longrightarrow>
          calculateAuthProfileCooldownMs m \<le> calculateAuthProfileCooldownMs n)
   \<and> (\<forall>n. calculateAuthProfileCooldownMs n \<le> 3600000)"
proof (intro conjI allI impI)
  fix n :: int
  assume "1 \<le> n"
  then have "max 1 n = n" by simp
  then show "calculateAuthProfileCooldownMs n = min 3600000 (60000 * 5 ^ nat (min (n - 1) 3))"
    by (simp add: calculateAuthProfileCooldownMs_def)
next
  fix n :: int
  assume "4 \<le> n"
  then show "calculateAuthProfileCooldownMs n = 3600000" by (simp add: cooldown_cases)
next
  fix m n :: int
  assume "m \<le> n"
  then show "calculateAuthProfileCooldownMs m \<le> calculateAuthProfileCooldownMs n"
    by (simp add: cooldown_cases)
next
  fix n :: int
  show "calculateAuthProfileCooldownMs n \<le> 3600000" by (simp add: cooldown_cases)
qed (simp_all add: cooldown_cases)

theorem calculateAuthProfileCooldownMs_schedule_witness:
  "calculateAuthProfileCooldownMs 7 = min 3600000 (60000 * 5 ^ nat (min (7 - 1) 3))
   \<and> calculateAuthProfileCooldownMs 7 = 3600000
   \<and> calculateAuthProfileCooldownMs 2 \<le> calculateAuthProfileCooldownMs 3
   \<and> calculateAuthProfileCooldownMs 0 = 60000"
proof -
  have a: "(1::int) \<le> 7" and b: "(4::int) \<le> 7" and c: "(2::int) \<le> 3" by simp_all
  from calculateAuthProfileCooldownMs_schedule a b c
  have "calculateAuthProfileCooldownMs 7 = min 3600000 (60000 * 5 ^ nat (min (7 - 1) 3))"
       "calculateAuthProfileCooldownMs 7 = 3600000"
       "calculateAuthProfileCooldownMs 2 \<le> calculateAuthProfileCooldownMs 3"
    by blast+
  moreover have "calculateAuthProfileCooldownMs 0 = 60000" by (simp add: cooldown_cases)
  ultimately show ?thesis by blast
qed

section \<open>JavaScript string operations\<close>

text \<open>
  Strings are lists of 8-bit characters. The source's strings are UTF-16; the model is
  exact on ASCII text, which is what provider ids, profile ids and the matched error
  fragments are. Characters outside ASCII are left alone by \<open>toLowerCase\<close> and are
  neither white space nor word characters here.
\<close>

definition isWhitespace :: "char \<Rightarrow> bool" where
  "isWhitespace c = (c \<in> set [CHR 0x09, CHR 0x0A, CHR 0x0B, CHR 0x0C, CHR 0x0D, CHR 0x20])"

definition isUpper :: "char \<Rightarrow> bool" where
  "isUpper c = (65 \<le> (of_char c :: nat) \<and> (of_char c :: nat) \<le> 90)"

definition isLetter :: "char \<Rightarrow> bool" where
  "isLetter c = (isUpper c \<or> (97 \<le> (of_char c :: nat) \<and> (of_char c :: nat) \<le> 122))"

definition isDigit :: "char \<Rightarrow> bool" where
  "isDigit c = (48 \<le> (of_char c :: nat) \<and> (of_char c :: nat) \<le> 57)"

text \<open>The class \<^verbatim>\<open>\w\<close> of a regular expression.\<close>

definition isWordChar :: "char \<Rightarrow> bool" where
  "isWordChar c = (isLetter c \<or> isDigit c \<or> c = CHR ''_'')"

definition lowerChar :: "char \<Rightarrow> char" where
  "lowerChar c = (if isUpper c then char_of ((of_char c :: nat) + 32) else c)"

definition toLowerCase :: "string \<Rightarrow> string" where
  "toLowerCase s = map lowerChar s"

definition trim :: "string \<Rightarrow> string" where
  "trim s = rev (dropWhile isWhitespace (rev (dropWhile isWhitespace s)))"

fun startsWith :: "string \<Rightarrow> string \<Rightarrow> bool" where
  "startsWith _ [] = True"
| "startsWith [] (_ # _) = False"
| "startsWith (c # cs) (p # ps) = (c = p \<and> startsWith cs ps)"

text \<open>\<^verbatim>\<open>s.includes(sub)\<close>.\<close>

fun str_includes :: "string \<Rightarrow> string \<Rightarrow> bool" where
  "str_includes [] sub = (sub = [])"
| "str_includes (c # cs) sub = (startsWith (c # cs) sub \<or> str_includes cs sub)"

text \<open>\<^verbatim>\<open>/\bw\b/.test(s)\<close> for a word \<open>w\<close> of word characters: an occurrence of \<open>w\<close>
  that neither follows nor is followed by a word character. The flag says whether the
  character before the current position is a word character.\<close>

fun searchWord :: "bool \<Rightarrow> string \<Rightarrow> string \<Rightarrow> bool" where
  "searchWord prevWord [] w = False"
| "searchWord prevWord (c # cs) w =
     ((\<not> prevWord \<and> startsWith (c # cs) w
        \<and> (case drop (length w) (c # cs) of [] \<Rightarrow> True | d # _ \<Rightarrow> \<not> isWordChar d))
      \<or> searchWord (isWordChar c) cs w)"

definition testWord :: "string \<Rightarrow> string \<Rightarrow> bool" where
  "testWord s w = searchWord False s w"

section \<open>Credential store data model (auth-profiles)\<close>

text \<open>
  The tagged union \<^verbatim>\<open>AuthProfileCredential\<close> of the three credential shapes, and the
  \<^verbatim>\<open>type\<close> tag that tells them apart; the same three strings are the values of
  \<^verbatim>\<open>AuthProfileConfig.mode\<close>. The fields \<^verbatim>\<open>provider\<close>, \<^verbatim>\<open>email\<close> and
  \<^verbatim>\<open>expires\<close>, which the three shapes share by name, carry the shape's initials here;
  \<open>cred_provider\<close> and \<open>cred_email\<close> read them from any shape.
  A JavaScript object (\<^verbatim>\<open>Record<string, ...>\<close>) is an association list in the order
  \<^verbatim>\<open>Object.entries\<close> enumerates it, looked up with \<open>map_of\<close> (and with
  \<open>getProperty\<close>, defined with the resolver, where a read can meet a member that every
  object inherits); an absent optional
  object (\<^verbatim>\<open>usageStats\<close>, \<^verbatim>\<open>lastGood\<close>, \<^verbatim>\<open>cfg.auth.order\<close>,
  \<^verbatim>\<open>cfg.auth.profiles\<close>) is the empty list, which every function below treats
  exactly as the source treats \<^verbatim>\<open>undefined\<close>.
\<close>

datatype CredentialType = T_api_key | T_oauth | T_token

record ApiKeyCredential =
  ak_provider :: string
  key :: string
  ak_email :: "string option"

record TokenCredential =
  tk_provider :: string
  token :: string
  tk_expires :: "int option"
  tk_email :: "string option"

record OAuthCredential =
  oa_provider :: string
  access :: string
  refresh :: string
  expires :: int
  oa_email :: "string option"
  enterpriseUrl :: "string option"
  projectId :: "string option"
  accountId :: "string option"

datatype AuthProfileCredential =
    ApiKey ApiKeyCredential
  | Token TokenCredential
  | OAuth OAuthCredential

fun cred_type :: "AuthProfileCredential \<Rightarrow> CredentialType" where
  "cred_type (ApiKey _) = T_api_key"
| "cred_type (Token _) = T_token"
| "cred_type (OAuth _) = T_oauth"

fun cred_provider :: "AuthProfileCredential \<Rightarrow> string" where
  "cred_provider (ApiKey c) = ak_provider c"
| "cred_provider (Token c) = tk_provider c"
| "cred_provider (OAuth c) = oa_provider c"

fun cred_email :: "AuthProfileCredential \<Rightarrow> string option" where
  "cred_email (ApiKey c) = ak_email c"
| "cred_email (Token c) = tk_email c"
| "cred_email (OAuth c) = oa_email c"

record ProfileUsageStats =
  lastUsed :: "int option"
  cooldownUntil :: "int option"
  errorCount :: "int option"

record AuthProfileStore =
  version :: int
  profiles :: "(string \<times> AuthProfileCredential) list"
  lastGood :: "(string \<times> string) list"
  usageStats :: "(string \<times> ProfileUsageStats) list"

record AuthProfileConfig =
  profile_provider :: string
  mode :: CredentialType
  profile_email :: "string option"

record ClawdbotConfig =
  auth_profiles :: "(string \<times> AuthProfileConfig) list"
  auth_order :: "(string \<times> string list) list"
  agent_model_fallbacks :: "string list"

text \<open>A thrown \<^verbatim>\<open>Error\<close> is the value \<open>Error message\<close>; a function that may throw
  returns \<open>error + result\<close>, with \<open>Inl\<close> for the throw.\<close>

datatype error = Error string

section \<open>Profile order resolver (auth-profiles)\<close>

text \<open>
  \<^verbatim>\<open>normalizeProviderId\<close> lives in \<^verbatim>\<open>model-selection.js\<close>, which is not part of the
  sources at hand; it is declared on strings, and every function that calls it takes as
  the parameter \<open>N\<close> what it returns for a string. The resolver can also call it with
  \<^verbatim>\<open>undefined\<close> (see \<open>matchesProvider\<close>); what that call does is the parameter \<open>U\<close>:
  \<open>Inr\<close> the string it returns, or \<open>Inl\<close> the error it throws.
  Every \<^verbatim>\<open>Date.now()\<close> is a reading of the parameter \<open>clock\<close>: \<open>clock n\<close> is the
  reading number \<open>n\<close> of the call, counted from 0.
\<close>

text \<open>
  A read \<^verbatim>\<open>obj[key]\<close> of a plain object finds the object's own entry, or else the
  member of that name that every object inherits from \<^verbatim>\<open>Object.prototype\<close>, or
  nothing. The inherited members are functions (and, for \<^verbatim>\<open>__proto__\<close>, the prototype
  itself): they are truthy and have none of the fields of a credential or of usage
  statistics. So a read that goes on to an optional field (\<^verbatim>\<open>obj[key]?.field\<close>) gives
  the same for an inherited member as for a missing entry and is modelled by
  \<open>map_of\<close>; the filter of \<^verbatim>\<open>resolveAuthProfileOrder\<close>, which tests the entry itself
  for ids taken from the configuration, is modelled by \<open>getProperty\<close>. The other reads
  by key in this development are modelled by \<open>map_of\<close> and agree with the source for
  every id that is not the name of an inherited member.
\<close>

definition objectPrototypeKeys :: "string list" where
  "objectPrototypeKeys =
     [''constructor'', ''__defineGetter__'', ''__defineSetter__'', ''hasOwnProperty'',
      ''__lookupGetter__'', ''__lookupSetter__'', ''isPrototypeOf'', ''propertyIsEnumerable'',
      ''toString'', ''valueOf'', ''__proto__'', ''toLocaleString'']"

datatype 'a lookup = Own 'a | Inherited | Absent

definition getProperty :: "(string \<times> 'a) list \<Rightarrow> string \<Rightarrow> 'a lookup" where
  "getProperty obj k =
     (case map_of obj k of
        Some v \<Rightarrow> Own v
      | None \<Rightarrow> if k \<in> set objectPrototypeKeys then Inherited else Absent)"

definition listProfilesForProvider ::
  "(string \<Rightarrow> string) \<Rightarrow> AuthProfileStore \<Rightarrow> string \<Rightarrow> string list" where
  "listProfilesForProvider N store provider =
     (let providerKey = N provider
      in map fst (filter (\<lambda>(_, cred). N (cred_provider cred) = providerKey) (profiles store)))"

text \<open>\<^verbatim>\<open>if (!stats?.cooldownUntil) return false\<close>: a missing entry, a missing field and
  the number 0 are all falsy.\<close>

definition isProfileInCooldown :: "AuthProfileStore \<Rightarrow> string \<Rightarrow> int \<Rightarrow> bool" where
  "isProfileInCooldown store profileId now =
     (case map_of (usageStats store) profileId of
        None \<Rightarrow> False
      | Some stats \<Rightarrow>
          (case cooldownUntil stats of
             None \<Rightarrow> False
           | Some c \<Rightarrow> if c = 0 then False else now < c))"

text \<open>
  \<^verbatim>\<open>Array.prototype.sort(compare)\<close> is a stable sort. For a comparator that is a total
  preorder the result of a stable sort is unique, so it is modelled by stable insertion:
  each element, taken from the right, goes in front of the first element it does not
  compare greater than.
\<close>

fun insert_cmp :: "('a \<Rightarrow> 'a \<Rightarrow> int) \<Rightarrow> 'a \<Rightarrow> 'a list \<Rightarrow> 'a list" where
  "insert_cmp cmp x [] = [x]"
| "insert_cmp cmp x (y # ys) = (if cmp x y \<le> 0 then x # y # ys else y # insert_cmp cmp x ys)"

definition sort_cmp :: "('a \<Rightarrow> 'a \<Rightarrow> int) \<Rightarrow> 'a list \<Rightarrow> 'a list" where
  "sort_cmp cmp xs = foldr (insert_cmp cmp) xs []"

text \<open>The score of a candidate: \<^verbatim>\<open>oauth\<close> 0, \<^verbatim>\<open>token\<close> 1, \<^verbatim>\<open>api_key\<close> 2, and 3 for an id
  with no stored credential; \<^verbatim>\<open>lastUsed ?? 0\<close>.\<close>

definition typeScore :: "AuthProfileStore \<Rightarrow> string \<Rightarrow> int" where
  "typeScore store profileId =
     (case map_of (profiles store) profileId of
        None \<Rightarrow> 3
      | Some cred \<Rightarrow>
          (case cred_type cred of T_oauth \<Rightarrow> 0 | T_token \<Rightarrow> 1 | T_api_key \<Rightarrow> 2))"

definition lastUsedOr0 :: "AuthProfileStore \<Rightarrow> string \<Rightarrow> int" where
  "lastUsedOr0 store profileId =
     (case map_of (usageStats store) profileId of
        None \<Rightarrow> 0
      | Some stats \<Rightarrow> (case lastUsed stats of None \<Rightarrow> 0 | Some t \<Rightarrow> t))"

definition cooldownUntilOr :: "AuthProfileStore \<Rightarrow> int \<Rightarrow> string \<Rightarrow> int" where
  "cooldownUntilOr store now profileId =
     (case map_of (usageStats store) profileId of
        None \<Rightarrow> now
      | Some stats \<Rightarrow> (case cooldownUntil stats of None \<Rightarrow> now | Some c \<Rightarrow> c))"

text \<open>The comparator of the available candidates, on the triples
  \<^verbatim>\<open>{profileId, typeScore, lastUsed}\<close>, and the one of the cooling candidates, on the
  pairs \<^verbatim>\<open>{profileId, cooldownUntil}\<close>.\<close>

definition compareScored :: "string \<times> int \<times> int \<Rightarrow> string \<times> int \<times> int \<Rightarrow> int" where
  "compareScored a b =
     (if fst (snd a) \<noteq> fst (snd b) then fst (snd a) - fst (snd b)
      else snd (snd a) - snd (snd b))"

definition compareCooldown :: "string \<times> int \<Rightarrow> string \<times> int \<Rightarrow> int" where
  "compareCooldown a b = snd a - snd b"

text \<open>
  The loop of \<^verbatim>\<open>orderProfilesByMode\<close> that fills \<^verbatim>\<open>available\<close> and \<^verbatim>\<open>inCooldown\<close>:
  each call of \<^verbatim>\<open>isProfileInCooldown\<close> reads the clock anew; \<open>n\<close> is the number of the
  reading the next call makes.
\<close>

fun partitionByCooldown ::
  "AuthProfileStore \<Rightarrow> (nat \<Rightarrow> int) \<Rightarrow> nat \<Rightarrow> string list \<Rightarrow> string list \<times> string list" where
  "partitionByCooldown store clock n [] = ([], [])"
| "partitionByCooldown store clock n (profileId # rest) =
     (let (available, inCooldown) = partitionByCooldown store clock (Suc n) rest
      in if isProfileInCooldown store profileId (clock n)
         then (available, profileId # inCooldown)
         else (profileId # available, inCooldown))"

text \<open>\<^verbatim>\<open>orderProfilesByMode\<close>: reading 0 is \<^verbatim>\<open>const now = Date.now()\<close>, the readings
  from 1 on are those of the loop.\<close>

definition orderProfilesByMode :: "string list \<Rightarrow> AuthProfileStore \<Rightarrow> (nat \<Rightarrow> int) \<Rightarrow> string list" where
  "orderProfilesByMode profileOrder store clock =
     (let now = clock 0;
          (available, inCooldown) = partitionByCooldown store clock 1 profileOrder;
          scored = map (\<lambda>profileId. (profileId, typeScore store profileId, lastUsedOr0 store profileId))
                     available;
          sorted = map fst (sort_cmp compareScored scored);
          cooldownSorted =
            map fst (sort_cmp compareCooldown
                       (map (\<lambda>profileId. (profileId, cooldownUntilOr store now profileId)) inCooldown))
      in sorted @ cooldownSorted)"

text \<open>The immediately invoked function that looks the provider up in
  \<^verbatim>\<open>cfg.auth.order\<close>: the first entry whose normalised key is the provider key.\<close>

definition configuredOrder ::
  "(string \<Rightarrow> string) \<Rightarrow> ClawdbotConfig \<Rightarrow> string \<Rightarrow> string list option" where
  "configuredOrder N cfg providerKey =
     (case find (\<lambda>(k, _). N k = providerKey) (auth_order cfg) of
        None \<Rightarrow> None
      | Some (_, v) \<Rightarrow> Some v)"

text \<open>The loop \<^verbatim>\<open>for (const entry of filtered) if (!deduped.includes(entry))
  deduped.push(entry)\<close>.\<close>

definition dedupe :: "string list \<Rightarrow> string list" where
  "dedupe xs = fold (\<lambda>entry deduped. if entry \<in> set deduped then deduped else deduped @ [entry]) xs []"

text \<open>\<^verbatim>\<open>preferredProfile && list.includes(preferredProfile)\<close> followed by the move to the
  front; the empty string is falsy.\<close>

definition preferFirst :: "string option \<Rightarrow> string list \<Rightarrow> string list" where
  "preferFirst preferredProfile xs =
     (case preferredProfile of
        None \<Rightarrow> xs
      | Some p \<Rightarrow> if p \<noteq> [] \<and> p \<in> set xs then p # filter (\<lambda>e. e \<noteq> p) xs else xs)"

text \<open>
  The test of the filter, \<^verbatim>\<open>cred ? normalizeProviderId(cred.provider) === providerKey :
  true\<close>: an inherited member is truthy and has no \<^verbatim>\<open>provider\<close>, so the call is
  \<^verbatim>\<open>normalizeProviderId(undefined)\<close>.
\<close>

definition matchesProvider ::
  "(string \<Rightarrow> string) \<Rightarrow> error + string \<Rightarrow> AuthProfileStore \<Rightarrow> string \<Rightarrow> string \<Rightarrow> error + bool" where
  "matchesProvider N U store providerKey profileId =
     (case getProperty (profiles store) profileId of
        Absent \<Rightarrow> Inr True
      | Own cred \<Rightarrow> Inr (N (cred_provider cred) = providerKey)
      | Inherited \<Rightarrow> (case U of Inl err \<Rightarrow> Inl err | Inr s \<Rightarrow> Inr (s = providerKey)))"

text \<open>\<^verbatim>\<open>Array.prototype.filter\<close> with a test that can throw: the elements are tested from
  left to right and the first throw ends the call.\<close>

fun filterE :: "('a \<Rightarrow> error + bool) \<Rightarrow> 'a list \<Rightarrow> error + 'a list" where
  "filterE t [] = Inr []"
| "filterE t (x # xs) =
     (case t x of
        Inl err \<Rightarrow> Inl err
      | Inr keep \<Rightarrow>
          (case filterE t xs of
             Inl err \<Rightarrow> Inl err
           | Inr ys \<Rightarrow> Inr (if keep then x # ys else ys)))"

definition resolveAuthProfileOrder ::
  "(string \<Rightarrow> string) \<Rightarrow> error + string \<Rightarrow> ClawdbotConfig \<Rightarrow> AuthProfileStore \<Rightarrow> string
     \<Rightarrow> string option \<Rightarrow> (nat \<Rightarrow> int) \<Rightarrow> error + string list" where
  "resolveAuthProfileOrder N U cfg store provider preferredProfile clock =
     (let providerKey = N provider;
          configured = configuredOrder N cfg providerKey;
          explicitProfiles =
            map fst (filter (\<lambda>(_, profile). N (profile_provider profile) = providerKey)
                       (auth_profiles cfg));
          baseOrder =
            (case configured of
               Some v \<Rightarrow> v
             | None \<Rightarrow>
                 if length explicitProfiles > 0 then explicitProfiles
                 else listProfilesForProvider N store providerKey)
      in if length baseOrder = 0 then Inr []
         else
           (case filterE (matchesProvider N U store providerKey) baseOrder of
              Inl err \<Rightarrow> Inl err
            | Inr filtered \<Rightarrow>
                let deduped = dedupe filtered
                in if (case configured of Some v \<Rightarrow> length v > 0 | None \<Rightarrow> False)
                   then Inr (preferFirst preferredProfile deduped)
                   else Inr (preferFirst preferredProfile (orderProfilesByMode deduped store clock))))"

text \<open>The two halves of the result of \<^verbatim>\<open>orderProfilesByMode\<close>, when every candidate is tested at the
  time \<open>now\<close>, named for the statements below.\<close>

definition availableSorted :: "string list \<Rightarrow> AuthProfileStore \<Rightarrow> int \<Rightarrow> string list" where
  "availableSorted profileOrder store now =
     map fst (sort_cmp compareScored
       (map (\<lambda>profileId. (profileId, typeScore store profileId, lastUsedOr0 store profileId))
          (filter (\<lambda>profileId. \<not> isProfileInCooldown store profileId now) profileOrder)))"

definition cooldownSorted :: "string list \<Rightarrow> AuthProfileStore \<Rightarrow> int \<Rightarrow> string list" where
  "cooldownSorted profileOrder store now =
     map fst (sort_cmp compareCooldown
       (map (\<lambda>profileId. (profileId, cooldownUntilOr store now profileId))
          (filter (\<lambda>profileId. isProfileInCooldown store profileId now) profileOrder)))"

subsection \<open>The stable sort and the two halves of the order\<close>

lemma mset_insert_cmp: "mset (insert_cmp cmp x ys) = add_mset x (mset ys)"
  by (induction ys) auto

lemma mset_sort_cmp: "mset (sort_cmp cmp xs) = mset xs"
  by (induction xs) (auto simp: sort_cmp_def mset_insert_cmp)

lemma set_insert_cmp: "set (insert_cmp cmp x ys) = insert x (set ys)"
  by (induction ys) auto

lemma sorted_insert_cmp:
  assumes total: "\<And>a b. cmp a b \<le> 0 \<or> cmp b a \<le> 0"
      and trans: "\<And>a b c. cmp a b \<le> 0 \<Longrightarrow> cmp b c \<le> 0 \<Longrightarrow> cmp a c \<le> 0"
      and srt: "sorted_wrt (\<lambda>a b. cmp a b \<le> 0) ys"
  shows "sorted_wrt (\<lambda>a b. cmp a b \<le> 0) (insert_cmp cmp x ys)"
  using srt
proof (induction ys)
  case Nil
  then show ?case by simp
next
  case (Cons y ys)
  show ?case
  proof (cases "cmp x y \<le> 0")
    case True
    with Cons.prems trans show ?thesis by auto
  next
    case False
    with total have "cmp y x \<le> 0" by blast
    with False Cons show ?thesis by (auto simp: set_insert_cmp)
  qed
qed

lemma sorted_sort_cmp:
  assumes total: "\<And>a b. cmp a b \<le> 0 \<or> cmp b a \<le> 0"
      and trans: "\<And>a b c. cmp a b \<le> 0 \<Longrightarrow> cmp b c \<le> 0 \<Longrightarrow> cmp a c \<le> 0"
  shows "sorted_wrt (\<lambda>a b. cmp a b \<le> 0) (sort_cmp cmp xs)"
proof (induction xs)
  case Nil
  then show ?case by (simp add: sort_cmp_def)
next
  case (Cons x xs)
  have "sort_cmp cmp (x # xs) = insert_cmp cmp x (sort_cmp cmp xs)"
    by (simp add: sort_cmp_def)
  with Cons sorted_insert_cmp[OF total trans] show ?case by simp
qed

lemma compareScored_total: "compareScored a b \<le> 0 \<or> compareScored b a \<le> 0"
  by (auto simp: compareScored_def)

lemma compareScored_trans:
  "compareScored a b \<le> 0 \<Longrightarrow> compareScored b c \<le> 0 \<Longrightarrow> compareScored a c \<le> 0"
  by (auto simp: compareScored_def split: if_splits)

lemma compareScored_le:
  "compareScored a b \<le> 0 \<longleftrightarrow>
     fst (snd a) < fst (snd b) \<or> (fst (snd a) = fst (snd b) \<and> snd (snd a) \<le> snd (snd b))"
  by (auto simp: compareScored_def)

lemma compareCooldown_total: "compareCooldown a b \<le> 0 \<or> compareCooldown b a \<le> 0"
  by (auto simp: compareCooldown_def)

lemma compareCooldown_trans:
  "compareCooldown a b \<le> 0 \<Longrightarrow> compareCooldown b c \<le> 0 \<Longrightarrow> compareCooldown a c \<le> 0"
  by (auto simp: compareCooldown_def)

text \<open>Sorting the decorated list and projecting: a permutation of the keys, sorted by
  the decoration.\<close>

lemma sorted_decorated:
  assumes "sorted_wrt (\<lambda>a b. cmp a b \<le> 0) zs"
      and "mset zs = mset (map (\<lambda>p. (p, f p)) xs)"
      and "\<And>p q. cmp (p, f p) (q, f q) \<le> 0 \<longleftrightarrow> R p q"
  shows "sorted_wrt R (map fst zs)"
proof -
  have "set zs = set (map (\<lambda>p. (p, f p)) xs)" using assms(2) by (metis set_mset_mset)
  then have shape: "\<And>z. z \<in> set zs \<Longrightarrow> z = (fst z, f (fst z))" by auto
  have "sorted_wrt (\<lambda>a b. R (fst a) (fst b)) zs"
  proof (rule sorted_wrt_mono_rel[OF _ assms(1)])
    fix a b assume "a \<in> set zs" "b \<in> set zs" "cmp a b \<le> 0"
    then show "R (fst a) (fst b)" using shape assms(3) by metis
  qed
  then show ?thesis by (simp add: sorted_wrt_map)
qed

lemma mset_decorated:
  assumes "mset zs = mset (map (\<lambda>p. (p, f p)) xs)"
  shows "mset (map fst zs) = mset xs"
proof -
  have "mset (map fst zs) = image_mset fst (mset zs)" by simp
  also have "\<dots> = image_mset fst (mset (map (\<lambda>p. (p, f p)) xs))" using assms by simp
  also have "\<dots> = mset xs" by (simp add: image_mset.compositionality comp_def)
  finally show ?thesis .
qed

lemma cooldownUntilOr_clock:
  "isProfileInCooldown store p t \<Longrightarrow> cooldownUntilOr store now' p = cooldownUntilOr store now p"
  by (auto simp: isProfileInCooldown_def cooldownUntilOr_def split: option.splits)

text \<open>When the readings of the loop give every candidate the status it has at the time
  \<open>t\<close>, the loop splits the candidates as two filters do.\<close>

lemma partitionByCooldown_steady:
  assumes "\<forall>p \<in> set ps. \<forall>m. isProfileInCooldown store p (clock m) = isProfileInCooldown store p t"
  shows "partitionByCooldown store clock n ps
           = (filter (\<lambda>p. \<not> isProfileInCooldown store p t) ps,
              filter (\<lambda>p. isProfileInCooldown store p t) ps)"
  using assms by (induction ps arbitrary: n) simp_all

lemma orderProfilesByMode_split:
  assumes "\<forall>p \<in> set ps. \<forall>m. isProfileInCooldown store p (clock m) = isProfileInCooldown store p t"
  shows "orderProfilesByMode ps store clock = availableSorted ps store t @ cooldownSorted ps store t"
proof -
  have "map (\<lambda>p. (p, cooldownUntilOr store (clock 0) p)) (filter (\<lambda>p. isProfileInCooldown store p t) ps)
          = map (\<lambda>p. (p, cooldownUntilOr store t p)) (filter (\<lambda>p. isProfileInCooldown store p t) ps)"
    by (rule map_cong) (simp_all add: cooldownUntilOr_clock[where t = t])
  then show ?thesis
    by (simp only: orderProfilesByMode_def availableSorted_def cooldownSorted_def Let_def
        partitionByCooldown_steady[OF assms] prod.case)
qed

text \<open>The status of a profile is the same at every time of a span that holds no
  \<^verbatim>\<open>cooldownUntil\<close> of the profile after its start.\<close>

lemma isProfileInCooldown_span:
  assumes "lo \<le> x" "x \<le> hi"
      and "\<forall>stats c. map_of (usageStats store) p = Some stats \<and> cooldownUntil stats = Some c
             \<longrightarrow> c \<le> lo \<or> hi < c"
  shows "isProfileInCooldown store p x = isProfileInCooldown store p lo"
proof (cases "map_of (usageStats store) p")
  case None
  then show ?thesis by (simp add: isProfileInCooldown_def)
next
  case (Some stats)
  show ?thesis
  proof (cases "cooldownUntil stats")
    case None
    with Some show ?thesis by (simp add: isProfileInCooldown_def)
  next
    case c: (Some c)
    with Some assms(3) have "c \<le> lo \<or> hi < c" by simp
    with assms(1,2) Some c show ?thesis by (auto simp: isProfileInCooldown_def)
  qed
qed

lemma orderProfilesByMode_span:
  assumes "\<forall>n. lo \<le> clock n \<and> clock n \<le> hi"
      and "\<forall>p stats c. map_of (usageStats store) p = Some stats \<and> cooldownUntil stats = Some c
             \<longrightarrow> c \<le> lo \<or> hi < c"
  shows "orderProfilesByMode ps store clock = availableSorted ps store lo @ cooldownSorted ps store lo"
proof (rule orderProfilesByMode_split, intro ballI allI)
  fix p m
  from assms(1) have "lo \<le> clock m" "clock m \<le> hi" by simp_all
  moreover from assms(2)
  have "\<forall>stats c. map_of (usageStats store) p = Some stats \<and> cooldownUntil stats = Some c
             \<longrightarrow> c \<le> lo \<or> hi < c" by blast
  ultimately show "isProfileInCooldown store p (clock m) = isProfileInCooldown store p lo"
    by (rule isProfileInCooldown_span)
qed

lemma mset_availableSorted:
  "mset (availableSorted profileOrder store now) =
     mset (filter (\<lambda>p. \<not> isProfileInCooldown store p now) profileOrder)"
  unfolding availableSorted_def
  by (rule mset_decorated[where f = "\<lambda>p. (typeScore store p, lastUsedOr0 store p)"])
     (simp add: mset_sort_cmp)

lemma mset_cooldownSorted:
  "mset (cooldownSorted profileOrder store now) =
     mset (filter (\<lambda>p. isProfileInCooldown store p now) profileOrder)"
  unfolding cooldownSorted_def
  by (rule mset_decorated[where f = "cooldownUntilOr store now"]) (simp add: mset_sort_cmp)

lemma sorted_availableSorted:
  "sorted_wrt (\<lambda>a b. typeScore store a < typeScore store b
                  \<or> (typeScore store a = typeScore store b \<and> lastUsedOr0 store a \<le> lastUsedOr0 store b))
     (availableSorted profileOrder store now)"
  unfolding availableSorted_def
proof (rule sorted_decorated[where f = "\<lambda>p. (typeScore store p, lastUsedOr0 store p)"
          and cmp = compareScored
          and xs = "filter (\<lambda>p. \<not> isProfileInCooldown store p now) profileOrder"])
  show "sorted_wrt (\<lambda>a b. compareScored a b \<le> 0)
          (sort_cmp compareScored
             (map (\<lambda>p. (p, typeScore store p, lastUsedOr0 store p))
                (filter (\<lambda>p. \<not> isProfileInCooldown store p now) profileOrder)))"
    by (rule sorted_sort_cmp[OF compareScored_total compareScored_trans])
qed (simp_all add: mset_sort_cmp compareScored_le)

lemma sorted_cooldownSorted:
  "sorted_wrt (\<lambda>a b. cooldownUntilOr store now a \<le> cooldownUntilOr store now b)
     (cooldownSorted profileOrder store now)"
  unfolding cooldownSorted_def
proof (rule sorted_decorated[where f = "cooldownUntilOr store now" and cmp = compareCooldown
          and xs = "filter (\<lambda>p. isProfileInCooldown store p now) profileOrder"])
  show "sorted_wrt (\<lambda>a b. compareCooldown a b \<le> 0)
          (sort_cmp compareCooldown
             (map (\<lambda>p. (p, cooldownUntilOr store now p))
                (filter (\<lambda>p. isProfileInCooldown store p now) profileOrder)))"
    by (rule sorted_sort_cmp[OF compareCooldown_total compareCooldown_trans])
qed (simp_all add: mset_sort_cmp compareCooldown_def)

lemma set_availableSorted:
  "set (availableSorted profileOrder store now) =
     {p \<in> set profileOrder. \<not> isProfileInCooldown store p now}"
  using mset_availableSorted[of profileOrder store now]
  by (metis set_filter set_mset_mset)

lemma set_cooldownSorted:
  "set (cooldownSorted profileOrder store now) =
     {p \<in> set profileOrder. isProfileInCooldown store p now}"
  using mset_cooldownSorted[of profileOrder store now]
  by (metis set_filter set_mset_mset)

lemma cooldown_never_precedes:
  assumes "i < j" "j < length (availableSorted ps store t @ cooldownSorted ps store t)"
      and "isProfileInCooldown store ((availableSorted ps store t @ cooldownSorted ps store t) ! i) t"
  shows "isProfileInCooldown store ((availableSorted ps store t @ cooldownSorted ps store t) ! j) t"
proof -
  let ?A = "availableSorted ps store t"
  let ?C = "cooldownSorted ps store t"
  have "\<not> i < length ?A"
  proof
    assume "i < length ?A"
    then have "(?A @ ?C) ! i \<in> set ?A" by (simp add: nth_append)
    with assms(3) show False by (simp add: set_availableSorted)
  qed
  with assms(1) have "\<not> j < length ?A" by simp
  moreover from assms(2) have "j < length ?A + length ?C" by simp
  ultimately have "(?A @ ?C) ! j \<in> set ?C" by (simp add: nth_append)
  then show ?thesis by (simp add: set_cooldownSorted)
qed

lemma lower_rank_precedes:
  assumes "i < length (availableSorted ps store t @ cooldownSorted ps store t)"
      and "j < length (availableSorted ps store t @ cooldownSorted ps store t)"
      and "\<not> isProfileInCooldown store ((availableSorted ps store t @ cooldownSorted ps store t) ! i) t"
      and "\<not> isProfileInCooldown store ((availableSorted ps store t @ cooldownSorted ps store t) ! j) t"
      and "typeScore store ((availableSorted ps store t @ cooldownSorted ps store t) ! i)
             < typeScore store ((availableSorted ps store t @ cooldownSorted ps store t) ! j)"
  shows "i < j"
proof -
  let ?A = "availableSorted ps store t"
  let ?C = "cooldownSorted ps store t"
  let ?le = "\<lambda>a b. typeScore store a < typeScore store b
                  \<or> (typeScore store a = typeScore store b \<and> lastUsedOr0 store a \<le> lastUsedOr0 store b)"
  have inA: "k < length ?A" if "k < length (?A @ ?C)" "\<not> isProfileInCooldown store ((?A @ ?C) ! k) t" for k
  proof (rule ccontr)
    assume "\<not> k < length ?A"
    with that(1) have "(?A @ ?C) ! k \<in> set ?C" by (simp add: nth_append)
    with that(2) show False by (simp add: set_cooldownSorted)
  qed
  from assms have iA: "i < length ?A" and jA: "j < length ?A" using inA by simp_all
  show ?thesis
  proof (rule ccontr)
    assume "\<not> i < j"
    moreover from assms(5) have "i \<noteq> j" by auto
    ultimately have "j < i" by simp
    with iA sorted_availableSorted[of store ps t]
    have "?le (?A ! j) (?A ! i)" by (simp add: sorted_wrt_iff_nth_less)
    with assms(5) iA jA show False by (simp add: nth_append)
  qed
qed

lemma typeScore_rank:
  "map_of (profiles store) p = Some cred \<Longrightarrow>
     typeScore store p = (case cred_type cred of T_oauth \<Rightarrow> 0 | T_token \<Rightarrow> 1 | T_api_key \<Rightarrow> 2)"
  by (simp add: typeScore_def)

lemma isProfileInCooldown_field:
  "isProfileInCooldown store p t \<longleftrightarrow>
     (\<exists>stats c. map_of (usageStats store) p = Some stats \<and> cooldownUntil stats = Some c
               \<and> c \<noteq> 0 \<and> t < c)"
  by (auto simp: isProfileInCooldown_def split: option.splits)

lemma cooldownUntilOr_field:
  assumes "isProfileInCooldown store a t" "isProfileInCooldown store b t"
      and "cooldownUntilOr store t a \<le> cooldownUntilOr store t b"
  shows "\<exists>sa ca sb cb. map_of (usageStats store) a = Some sa \<and> cooldownUntil sa = Some ca
           \<and> map_of (usageStats store) b = Some sb \<and> cooldownUntil sb = Some cb \<and> ca \<le> cb"
  using assms
  by (auto simp: isProfileInCooldown_def cooldownUntilOr_def split: option.splits if_splits)

lemma sorted_cooldownSorted_field:
  "sorted_wrt (\<lambda>a b. \<exists>sa ca sb cb. map_of (usageStats store) a = Some sa \<and> cooldownUntil sa = Some ca
                  \<and> map_of (usageStats store) b = Some sb \<and> cooldownUntil sb = Some cb \<and> ca \<le> cb)
     (cooldownSorted ps store t)"
proof (rule sorted_wrt_mono_rel[OF _ sorted_cooldownSorted[of store t ps]])
  fix a b
  assume "a \<in> set (cooldownSorted ps store t)" "b \<in> set (cooldownSorted ps store t)"
     and "cooldownUntilOr store t a \<le> cooldownUntilOr store t b"
  then show "\<exists>sa ca sb cb. map_of (usageStats store) a = Some sa \<and> cooldownUntil sa = Some ca
                  \<and> map_of (usageStats store) b = Some sb \<and> cooldownUntil sb = Some cb \<and> ca \<le> cb"
    by (intro cooldownUntilOr_field[where t = t]) (simp_all add: set_cooldownSorted)
qed

subsection \<open>The filter, the removal of duplicates and the two modes of the resolver\<close>

lemma remdups_snoc: "remdups (zs @ [x]) = remdups (filter (\<lambda>z. z \<noteq> x) zs) @ [x]"
  by (induction zs) auto

lemma dedupe_fold:
  "fold (\<lambda>entry deduped. if entry \<in> set deduped then deduped else deduped @ [entry]) xs acc
     = acc @ rev (remdups (rev (filter (\<lambda>x. x \<notin> set acc) xs)))"
proof (induction xs arbitrary: acc)
  case Nil
  then show ?case by simp
next
  case (Cons x xs)
  show ?case
  proof (cases "x \<in> set acc")
    case True
    with Cons.IH[of acc] show ?thesis by simp
  next
    case False
    have f: "filter (\<lambda>z. z \<noteq> x) (rev (filter (\<lambda>y. y \<notin> set acc) xs))
               = rev (filter (\<lambda>y. y \<notin> set (acc @ [x])) xs)"
      by (simp add: rev_filter[symmetric] conj_commute)
    from False Cons.IH[of "acc @ [x]"] show ?thesis
      by (simp add: remdups_snoc f)
  qed
qed

lemma dedupe_first_occurrences: "dedupe xs = rev (remdups (rev xs))"
  by (simp add: dedupe_def dedupe_fold)

lemma set_dedupe: "set (dedupe xs) = set xs"
  by (simp add: dedupe_first_occurrences)

lemma distinct_dedupe: "distinct (dedupe xs)"
  by (simp add: dedupe_first_occurrences)

lemma filterE_plain:
  assumes "\<forall>x \<in> set xs. t x = Inr (k x)"
  shows "filterE t xs = Inr (filter k xs)"
  using assms by (induction xs) simp_all

lemma filterE_throws:
  assumes "\<exists>x \<in> set xs. t x = Inl err" and "\<forall>x \<in> set xs. \<forall>err'. t x = Inl err' \<longrightarrow> err' = err"
  shows "filterE t xs = Inl err"
  using assms
proof (induction xs)
  case Nil
  then show ?case by simp
next
  case (Cons x xs)
  show ?case
  proof (cases "t x")
    case (Inl err')
    with Cons.prems(2) show ?thesis by simp
  next
    case (Inr keep)
    with Cons.prems have "\<exists>x \<in> set xs. t x = Inl err" by auto
    with Cons have "filterE t xs = Inl err" by simp
    with Inr show ?thesis by simp
  qed
qed

lemma matchesProvider_plain:
  assumes "map_of (profiles store) profileId = None \<longrightarrow> profileId \<notin> set objectPrototypeKeys"
  shows "matchesProvider N U store providerKey profileId
           = Inr (case map_of (profiles store) profileId of
                    None \<Rightarrow> True
                  | Some cred \<Rightarrow> N (cred_provider cred) = providerKey)"
  using assms by (simp add: matchesProvider_def getProperty_def split: option.splits)

lemma matchesProvider_inherited:
  assumes "map_of (profiles store) profileId = None" "profileId \<in> set objectPrototypeKeys"
  shows "matchesProvider N U store providerKey profileId
           = (case U of Inl err \<Rightarrow> Inl err | Inr s \<Rightarrow> Inr (s = providerKey))"
  using assms by (simp add: matchesProvider_def getProperty_def)

lemma matchesProvider_error:
  "matchesProvider N U store providerKey profileId = Inl err \<Longrightarrow> U = Inl err"
  by (auto simp: matchesProvider_def split: lookup.splits sum.splits)

lemma filter_matchesProvider_plain:
  assumes "\<forall>profileId \<in> set ids.
             map_of (profiles store) profileId = None \<longrightarrow> profileId \<notin> set objectPrototypeKeys"
  shows "filterE (matchesProvider N U store providerKey) ids
           = Inr (filter (\<lambda>profileId. case map_of (profiles store) profileId of
                                         None \<Rightarrow> True
                                       | Some cred \<Rightarrow> N (cred_provider cred) = providerKey) ids)"
  by (rule filterE_plain) (use assms in \<open>simp add: matchesProvider_plain\<close>)

lemma filter_matchesProvider_throws:
  assumes "U = Inl err"
      and "\<exists>profileId \<in> set ids.
             map_of (profiles store) profileId = None \<and> profileId \<in> set objectPrototypeKeys"
  shows "filterE (matchesProvider N U store providerKey) ids = Inl err"
proof (rule filterE_throws)
  from assms(2) obtain profileId where "profileId \<in> set ids"
    "map_of (profiles store) profileId = None" "profileId \<in> set objectPrototypeKeys" by blast
  then show "\<exists>x \<in> set ids. matchesProvider N U store providerKey x = Inl err"
    using assms(1) by (intro bexI[of _ profileId]) (simp_all add: matchesProvider_inherited)
  show "\<forall>x \<in> set ids. \<forall>err'. matchesProvider N U store providerKey x = Inl err' \<longrightarrow> err' = err"
    using assms(1) matchesProvider_error[of N U store providerKey] by fastforce
qed

lemma resolve_configured:
  assumes "configuredOrder N cfg (N provider) = Some ord" and "ord \<noteq> []"
      and "\<forall>profileId \<in> set ord.
             map_of (profiles store) profileId = None \<longrightarrow> profileId \<notin> set objectPrototypeKeys"
  shows "resolveAuthProfileOrder N U cfg store provider preferredProfile clock
           = Inr (preferFirst preferredProfile
                    (dedupe (filter (\<lambda>profileId. case map_of (profiles store) profileId of
                                                     None \<Rightarrow> True
                                                   | Some cred \<Rightarrow> N (cred_provider cred) = N provider)
                               ord)))"
  using assms(1,2)
  by (simp add: resolveAuthProfileOrder_def Let_def filter_matchesProvider_plain[OF assms(3)])

lemma resolve_configured_throws:
  assumes "configuredOrder N cfg (N provider) = Some ord"
      and "U = Inl err"
      and "\<exists>profileId \<in> set ord.
             map_of (profiles store) profileId = None \<and> profileId \<in> set objectPrototypeKeys"
  shows "resolveAuthProfileOrder N U cfg store provider preferredProfile clock = Inl err"
proof -
  from assms(3) have "ord \<noteq> []" by auto
  with assms(1) show ?thesis
    by (simp add: resolveAuthProfileOrder_def Let_def filter_matchesProvider_throws[OF assms(2,3)])
qed

lemma listProfilesForProvider_stored:
  "map_of (profiles store) profileId = None \<Longrightarrow>
     profileId \<notin> set (listProfilesForProvider N store provider)"
  by (force simp: listProfilesForProvider_def Let_def map_of_eq_None_iff)

lemma resolve_unconfigured:
  fixes N cfg store provider
  defines "explicitIds \<equiv> map fst (filter (\<lambda>(_, profile). N (profile_provider profile) = N provider)
                                      (auth_profiles cfg))"
  defines "base \<equiv> (if explicitIds \<noteq> [] then explicitIds
                     else listProfilesForProvider N store (N provider))"
  assumes "configuredOrder N cfg (N provider) = None"
      and "\<forall>profileId \<in> set explicitIds.
             map_of (profiles store) profileId = None \<longrightarrow> profileId \<notin> set objectPrototypeKeys"
  shows "resolveAuthProfileOrder N U cfg store provider preferredProfile clock
           = Inr (preferFirst preferredProfile
                    (orderProfilesByMode
                       (dedupe (filter (\<lambda>profileId. case map_of (profiles store) profileId of
                                                        None \<Rightarrow> True
                                                      | Some cred \<Rightarrow> N (cred_provider cred) = N provider)
                                  base))
                       store clock))"
proof -
  have plain: "\<forall>profileId \<in> set base.
             map_of (profiles store) profileId = None \<longrightarrow> profileId \<notin> set objectPrototypeKeys"
    using assms(4) listProfilesForProvider_stored[where store = store and N = N and provider = "N provider"]
    by (auto simp: base_def)
  have empty: "orderProfilesByMode [] store clock = []"
    by (simp add: orderProfilesByMode_def sort_cmp_def)
  have b: "(if 0 < length explicitIds then explicitIds
            else listProfilesForProvider N store (N provider)) = base"
    by (simp add: base_def)
  have unf: "resolveAuthProfileOrder N U cfg store provider preferredProfile clock
      = (if length base = 0 then Inr []
         else (case filterE (matchesProvider N U store (N provider)) base of
                 Inl err \<Rightarrow> Inl err
               | Inr filtered \<Rightarrow>
                   Inr (preferFirst preferredProfile (orderProfilesByMode (dedupe filtered) store clock))))"
    by (simp only: resolveAuthProfileOrder_def Let_def assms(3) option.case
        explicitIds_def[symmetric] b if_False)
  show ?thesis
  proof (cases "base = []")
    case True
    then show ?thesis
      by (simp add: unf dedupe_def empty preferFirst_def split: option.splits)
  next
    case False
    then show ?thesis
      by (simp add: unf filter_matchesProvider_plain[OF plain])
  qed
qed

subsection \<open>Round robin and cooldown partitioning\<close>

text \<open>
  The store of the specification's round-robin example, an API key last used at 50 and
  an OAuth profile last used at 100, with two more profiles that are cooling down: an
  OAuth profile until 5000 and, later in the store, a token until 3000. No configuration.
  \<open>typeError\<close> is what \<^verbatim>\<open>normalizeProviderId(undefined)\<close> does when the function begins
  by calling a string method of its argument.
\<close>

definition example_store :: AuthProfileStore where
  "example_store =
     \<lparr> version = 1,
       profiles =
         [(''p:a'', ApiKey \<lparr> ak_provider = ''p'', key = ''sk-a'', ak_email = None \<rparr>),
          (''p:cool'', OAuth \<lparr> oa_provider = ''p'', access = ''acc0'', refresh = ''ref0'', expires = 9000,
              oa_email = None, enterpriseUrl = None, projectId = None, accountId = None \<rparr>),
          (''p:oauth1'', OAuth \<lparr> oa_provider = ''p'', access = ''acc1'', refresh = ''ref1'', expires = 9000,
              oa_email = None, enterpriseUrl = None, projectId = None, accountId = None \<rparr>),
          (''p:tok'', Token \<lparr> tk_provider = ''p'', token = ''tok'', tk_expires = None, tk_email = None \<rparr>)],
       lastGood = [],
       usageStats =
         [(''p:a'', \<lparr> lastUsed = Some 50, cooldownUntil = None, errorCount = None \<rparr>),
          (''p:cool'', \<lparr> lastUsed = Some 10, cooldownUntil = Some 5000, errorCount = Some 1 \<rparr>),
          (''p:oauth1'', \<lparr> lastUsed = Some 100, cooldownUntil = None, errorCount = None \<rparr>),
          (''p:tok'', \<lparr> lastUsed = Some 20, cooldownUntil = Some 3000, errorCount = Some 1 \<rparr>)] \<rparr>"

definition no_config :: ClawdbotConfig where
  "no_config = \<lparr> auth_profiles = [], auth_order = [], agent_model_fallbacks = [] \<rparr>"

definition typeError :: "error + string" where
  "typeError = Inl (Error ''TypeError: Cannot read properties of undefined'')"

text \<open>
  C4, as stated, fails: with no explicit configured order the resolver can return a
  profile in active cooldown before profiles that are not in cooldown. A
  \<^verbatim>\<open>preferredProfile\<close> that is among the candidates is moved to the front after the
  candidates have been ordered. Here the clock reads 1000 throughout, \<^verbatim>\<open>p:cool\<close> is
  cooling down until 5000 and is the preferred profile, and it stands before
  \<^verbatim>\<open>p:oauth1\<close> and \<^verbatim>\<open>p:a\<close>, which have no cooldown.
\<close>

theorem resolveAuthProfileOrder_cooling_first_counterexample:
  "auth_order no_config = []
   \<and> resolveAuthProfileOrder id typeError no_config example_store ''p'' (Some ''p:cool'') (\<lambda>n. 1000)
       = Inr [''p:cool'', ''p:oauth1'', ''p:a'', ''p:tok'']
   \<and> map_option cooldownUntil (map_of (usageStats example_store) ''p:cool'') = Some (Some 5000)
   \<and> (1000::int) < 5000
   \<and> map_option cooldownUntil (map_of (usageStats example_store) ''p:oauth1'') = Some None
   \<and> map_option cooldownUntil (map_of (usageStats example_store) ''p:a'') = Some None"
  by (intro conjI; code_simp)

text \<open>
  C4, amended. For every store and candidate list with no explicit configured order, and
  for clock readings of the call between which no cooldown runs out, the resolver
  returns a \<^verbatim>\<open>preferredProfile\<close> that is among the candidates first, whatever its
  cooldown, and the other candidates in this order (all candidates in this order when
  there is no such \<^verbatim>\<open>preferredProfile\<close>): first the candidates not in cooldown, sorted
  ascending by credential-type rank (oauth 0, token 1, api_key 2, and 3 for an id with no
  stored credential) and, within equal rank, ascending by \<^verbatim>\<open>lastUsed\<close> (0 when unset);
  then the candidates whose \<^verbatim>\<open>cooldownUntil\<close> is in the future, sorted ascending by
  \<^verbatim>\<open>cooldownUntil\<close>. In particular, in this order a profile in active cooldown never
  precedes a profile with no active cooldown, and an oauth profile with \<^verbatim>\<open>lastUsed\<close>
  100 precedes an api_key profile with \<^verbatim>\<open>lastUsed\<close> 50.
  The candidates are the ids the configuration declares for the provider or, when it
  declares none, the ids the store holds for the provider, without those stored under
  another provider and without duplicates. An id that the configuration declares, the
  store does not hold and every object inherits as a member (\<^verbatim>\<open>constructor\<close>, ...) is
  excluded: for it the resolver calls \<^verbatim>\<open>normalizeProviderId(undefined)\<close>.
\<close>

theorem resolveAuthProfileOrder_round_robin:
  fixes N :: "string \<Rightarrow> string" and cfg :: ClawdbotConfig and store :: AuthProfileStore
    and provider :: string and lo :: int
  defines "explicitIds \<equiv>
             map fst (filter (\<lambda>(_, profile). N (profile_provider profile) = N provider)
                        (auth_profiles cfg))"
  defines "storedIds \<equiv>
             map fst (filter (\<lambda>(_, cred). N (cred_provider cred) = N (N provider)) (profiles store))"
  defines "candidates \<equiv>
             rev (remdups (rev (filter
               (\<lambda>profileId. case map_of (profiles store) profileId of
                               None \<Rightarrow> True
                             | Some cred \<Rightarrow> N (cred_provider cred) = N provider)
               (if explicitIds \<noteq> [] then explicitIds else storedIds))))"
  defines "cooling \<equiv>
             \<lambda>p. \<exists>stats c. map_of (usageStats store) p = Some stats \<and> cooldownUntil stats = Some c
                          \<and> c \<noteq> 0 \<and> lo < c"
  defines "rank \<equiv>
             \<lambda>p. case map_of (profiles store) p of
                    None \<Rightarrow> 3
                  | Some cred \<Rightarrow> (case cred_type cred of T_oauth \<Rightarrow> 0 | T_token \<Rightarrow> 1 | T_api_key \<Rightarrow> (2::int))"
  defines "used \<equiv>
             \<lambda>p. case map_of (usageStats store) p of
                    None \<Rightarrow> 0
                  | Some stats \<Rightarrow> (case lastUsed stats of None \<Rightarrow> (0::int) | Some t \<Rightarrow> t)"
  assumes noOrder: "\<forall>k \<in> fst ` set (auth_order cfg). N k \<noteq> N provider"
      and readings: "\<forall>n. lo \<le> clock n \<and> clock n \<le> hi"
      and steady: "\<forall>p stats c. map_of (usageStats store) p = Some stats \<and> cooldownUntil stats = Some c
                     \<longrightarrow> c \<le> lo \<or> hi < c"
      and plain: "\<forall>profileId \<in> set explicitIds.
                    map_of (profiles store) profileId = None \<longrightarrow> profileId \<notin> set objectPrototypeKeys"
  shows "\<exists>available inCooldown.
           resolveAuthProfileOrder N U cfg store provider preferredProfile clock
             = Inr (case preferredProfile of
                      None \<Rightarrow> available @ inCooldown
                    | Some p \<Rightarrow>
                        if p \<noteq> [] \<and> p \<in> set candidates
                        then p # filter (\<lambda>e. e \<noteq> p) (available @ inCooldown)
                        else available @ inCooldown)
         \<and> mset available = mset (filter (\<lambda>p. \<not> cooling p) candidates)
         \<and> sorted_wrt (\<lambda>a b. rank a < rank b \<or> (rank a = rank b \<and> used a \<le> used b)) available
         \<and> mset inCooldown = mset (filter cooling candidates)
         \<and> sorted_wrt (\<lambda>a b. \<exists>sa ca sb cb.
                           map_of (usageStats store) a = Some sa \<and> cooldownUntil sa = Some ca
                         \<and> map_of (usageStats store) b = Some sb \<and> cooldownUntil sb = Some cb
                         \<and> ca \<le> cb) inCooldown
         \<and> (\<forall>i j. i < j \<and> j < length (available @ inCooldown)
                  \<and> cooling ((available @ inCooldown) ! i)
               \<longrightarrow> cooling ((available @ inCooldown) ! j))
         \<and> (\<forall>i j. i < length (available @ inCooldown) \<and> j < length (available @ inCooldown)
                  \<and> \<not> cooling ((available @ inCooldown) ! i) \<and> \<not> cooling ((available @ inCooldown) ! j)
                  \<and> rank ((available @ inCooldown) ! i) < rank ((available @ inCooldown) ! j)
               \<longrightarrow> i < j)"
proof -
  let ?A = "availableSorted candidates store lo" and ?C = "cooldownSorted candidates store lo"
  have "find (\<lambda>(k, _). N k = N provider) (auth_order cfg) = None"
    using noOrder by (force simp: find_None_iff)
  then have unconfigured: "configuredOrder N cfg (N provider) = None"
    by (simp add: configuredOrder_def)
  have cool: "isProfileInCooldown store p lo = cooling p" for p
    unfolding cooling_def by (rule isProfileInCooldown_field)
  have rank: "typeScore store = rank"
    unfolding rank_def by (rule ext) (simp add: typeScore_def)
  have used: "lastUsedOr0 store = used"
    unfolding used_def by (rule ext) (simp add: lastUsedOr0_def)
  have stored: "listProfilesForProvider N store (N provider) = storedIds"
    by (simp add: listProfilesForProvider_def storedIds_def Let_def)
  have "resolveAuthProfileOrder N U cfg store provider preferredProfile clock
          = Inr (preferFirst preferredProfile (orderProfilesByMode candidates store clock))"
    using resolve_unconfigured[OF unconfigured plain[unfolded explicitIds_def], of U preferredProfile clock]
    by (simp only: stored candidates_def explicitIds_def dedupe_first_occurrences)
  also have "orderProfilesByMode candidates store clock = ?A @ ?C"
    by (rule orderProfilesByMode_span[OF readings steady])
  finally have res: "resolveAuthProfileOrder N U cfg store provider preferredProfile clock
                       = Inr (preferFirst preferredProfile (?A @ ?C))" .
  have members: "set (?A @ ?C) = set candidates"
    by (auto simp: set_availableSorted set_cooldownSorted)
  have r: "resolveAuthProfileOrder N U cfg store provider preferredProfile clock
             = Inr (case preferredProfile of
                      None \<Rightarrow> ?A @ ?C
                    | Some p \<Rightarrow>
                        if p \<noteq> [] \<and> p \<in> set candidates
                        then p # filter (\<lambda>e. e \<noteq> p) (?A @ ?C)
                        else ?A @ ?C)"
    unfolding res preferFirst_def members ..
  have a: "mset ?A = mset (filter (\<lambda>p. \<not> cooling p) candidates)"
    using mset_availableSorted[of candidates store lo] by (simp add: cool)
  have b: "sorted_wrt (\<lambda>a b. rank a < rank b \<or> (rank a = rank b \<and> used a \<le> used b)) ?A"
    using sorted_availableSorted[of store candidates lo] by (simp add: rank used)
  have c: "mset ?C = mset (filter cooling candidates)"
    using mset_cooldownSorted[of candidates store lo] by (simp add: cool)
  have d: "sorted_wrt (\<lambda>a b. \<exists>sa ca sb cb.
                           map_of (usageStats store) a = Some sa \<and> cooldownUntil sa = Some ca
                         \<and> map_of (usageStats store) b = Some sb \<and> cooldownUntil sb = Some cb
                         \<and> ca \<le> cb) ?C"
    by (rule sorted_cooldownSorted_field)
  have e: "\<forall>i j. i < j \<and> j < length (?A @ ?C) \<and> cooling ((?A @ ?C) ! i) \<longrightarrow> cooling ((?A @ ?C) ! j)"
  proof (intro allI impI)
    fix i j
    assume "i < j \<and> j < length (?A @ ?C) \<and> cooling ((?A @ ?C) ! i)"
    then show "cooling ((?A @ ?C) ! j)"
      using cooldown_never_precedes[of i j candidates store lo] by (simp add: cool)
  qed
  have f: "\<forall>i j. i < length (?A @ ?C) \<and> j < length (?A @ ?C)
                  \<and> \<not> cooling ((?A @ ?C) ! i) \<and> \<not> cooling ((?A @ ?C) ! j)
                  \<and> rank ((?A @ ?C) ! i) < rank ((?A @ ?C) ! j)
               \<longrightarrow> i < j"
  proof (intro allI impI)
    fix i j
    assume "i < length (?A @ ?C) \<and> j < length (?A @ ?C)
                  \<and> \<not> cooling ((?A @ ?C) ! i) \<and> \<not> cooling ((?A @ ?C) ! j)
                  \<and> rank ((?A @ ?C) ! i) < rank ((?A @ ?C) ! j)"
    then show "i < j"
      using lower_rank_precedes[of i candidates store lo j] by (simp add: cool rank)
  qed
  show ?thesis
    apply (rule exI[where x = ?A])
    apply (rule exI[where x = ?C])
    apply (intro conjI)
          apply (rule r)
         apply (rule a)
        apply (rule b)
       apply (rule c)
      apply (rule d)
     apply (rule e)
    apply (rule f)
    done
qed

theorem resolveAuthProfileOrder_round_robin_witness:
  "auth_order no_config = []
   \<and> (\<forall>n. (1000::int) \<le> 1000 + int (min n 3) \<and> 1000 + int (min n 3) \<le> 1003)
   \<and> resolveAuthProfileOrder id typeError no_config example_store ''p'' None (\<lambda>n. 1000 + int (min n 3))
       = Inr [''p:oauth1'', ''p:a'', ''p:tok'', ''p:cool'']
   \<and> (\<exists>available inCooldown.
         [''p:oauth1'', ''p:a'', ''p:tok'', ''p:cool''] = available @ inCooldown
       \<and> mset available = {#''p:a'', ''p:oauth1''#}
       \<and> mset inCooldown = {#''p:cool'', ''p:tok''#})"
proof -
  have h1: "\<forall>k \<in> fst ` set (auth_order no_config). id k \<noteq> id ''p''"
    by (simp add: no_config_def)
  have h2: "\<forall>n. (1000::int) \<le> 1000 + int (min n 3) \<and> 1000 + int (min n 3) \<le> 1003"
    by simp
  have h3: "\<forall>p stats c. map_of (usageStats example_store) p = Some stats \<and> cooldownUntil stats = Some c
              \<longrightarrow> c \<le> 1000 \<or> 1003 < c"
    by (auto simp: example_store_def split: if_splits)
  have h4: "\<forall>profileId \<in> set (map fst (filter (\<lambda>(_, profile). id (profile_provider profile) = id ''p'')
                                          (auth_profiles no_config))).
              map_of (profiles example_store) profileId = None \<longrightarrow> profileId \<notin> set objectPrototypeKeys"
    by (simp add: no_config_def)
  have r: "resolveAuthProfileOrder id typeError no_config example_store ''p'' None (\<lambda>n. 1000 + int (min n 3))
             = Inr [''p:oauth1'', ''p:a'', ''p:tok'', ''p:cool'']"
    by code_simp
  have cands: "rev (remdups (rev (filter
               (\<lambda>profileId. case map_of (profiles example_store) profileId of
                               None \<Rightarrow> True
                             | Some cred \<Rightarrow> id (cred_provider cred) = id ''p'')
               (if map fst (filter (\<lambda>(_, profile). id (profile_provider profile) = id ''p'')
                              (auth_profiles no_config)) \<noteq> []
                then map fst (filter (\<lambda>(_, profile). id (profile_provider profile) = id ''p'')
                                (auth_profiles no_config))
                else map fst (filter (\<lambda>(_, cred). id (cred_provider cred) = id (id ''p''))
                                (profiles example_store))))))
         = [''p:a'', ''p:cool'', ''p:oauth1'', ''p:tok'']"
    by (simp add: no_config_def example_store_def)
  have cool: "(\<exists>stats c. map_of (usageStats example_store) p = Some stats \<and> cooldownUntil stats = Some c
                  \<and> c \<noteq> 0 \<and> 1000 < c) \<longleftrightarrow> p = ''p:cool'' \<or> p = ''p:tok''" for p
    by (auto simp: example_store_def split: if_splits)
  note t = resolveAuthProfileOrder_round_robin[where N = id and provider = "''p''"
               and U = typeError and preferredProfile = None, OF h1 h2 h3 h4,
               unfolded cands cool option.case]
  from t obtain available inCooldown where
    a: "resolveAuthProfileOrder id typeError no_config example_store ''p'' None (\<lambda>n. 1000 + int (min n 3))
       = Inr (available @ inCooldown)"
    and b: "mset available = mset (filter (\<lambda>p. \<not> (p = ''p:cool'' \<or> p = ''p:tok''))
                                     [''p:a'', ''p:cool'', ''p:oauth1'', ''p:tok''])"
    and c: "mset inCooldown = mset (filter (\<lambda>p. p = ''p:cool'' \<or> p = ''p:tok'')
                                      [''p:a'', ''p:cool'', ''p:oauth1'', ''p:tok''])"
    by blast
  from a r have "[''p:oauth1'', ''p:a'', ''p:tok'', ''p:cool''] = available @ inCooldown" by simp
  moreover from b have "mset available = {#''p:a'', ''p:oauth1''#}" by simp
  moreover from c have "mset inCooldown = {#''p:cool'', ''p:tok''#}" by simp
  moreover have "auth_order no_config = []" by (simp add: no_config_def)
  ultimately show ?thesis using h2 r by blast
qed

subsection \<open>Explicit configured order\<close>

text \<open>A configuration whose explicit order for \<^verbatim>\<open>anthropic\<close> names a profile id that the
  store holds for another provider, and one whose order names \<^verbatim>\<open>constructor\<close>, which
  the store does not hold and every object inherits.\<close>

definition mixed_cfg :: ClawdbotConfig where
  "mixed_cfg =
     \<lparr> auth_profiles = [],
       auth_order = [(''anthropic'', [''openai:default'', ''anthropic:work''])],
       agent_model_fallbacks = [] \<rparr>"

definition inherited_cfg :: ClawdbotConfig where
  "inherited_cfg =
     \<lparr> auth_profiles = [],
       auth_order = [(''anthropic'', [''anthropic:work'', ''constructor''])],
       agent_model_fallbacks = [] \<rparr>"

definition mixed_store :: AuthProfileStore where
  "mixed_store =
     \<lparr> version = 1,
       profiles =
         [(''openai:default'', ApiKey \<lparr> ak_provider = ''openai'', key = ''sk-openai'', ak_email = None \<rparr>),
          (''anthropic:work'', ApiKey \<lparr> ak_provider = ''anthropic'', key = ''sk-work'', ak_email = None \<rparr>)],
       lastGood = [],
       usageStats = [] \<rparr>"

text \<open>
  C5, as stated, fails: the resolver does not return exactly the configured order with
  duplicates removed. Before removing duplicates it drops every configured id whose
  stored credential belongs to another provider. Here the configured order for
  \<^verbatim>\<open>anthropic\<close> is \<^verbatim>\<open>[openai:default, anthropic:work]\<close>, it has no duplicates, and the
  resolver returns \<^verbatim>\<open>[anthropic:work]\<close>.
\<close>

theorem resolveAuthProfileOrder_configured_order_counterexample:
  "auth_order mixed_cfg = [(''anthropic'', [''openai:default'', ''anthropic:work''])]
   \<and> dedupe [''openai:default'', ''anthropic:work''] = [''openai:default'', ''anthropic:work'']
   \<and> resolveAuthProfileOrder id typeError mixed_cfg mixed_store ''anthropic'' None (\<lambda>n. 0)
        = Inr [''anthropic:work'']
   \<and> resolveAuthProfileOrder id typeError mixed_cfg mixed_store ''anthropic'' None (\<lambda>n. 0)
        \<noteq> Inr (dedupe [''openai:default'', ''anthropic:work''])"
  by (intro conjI; code_simp)

text \<open>
  C5, amended. When the configuration declares a non-empty explicit order for the
  provider, the resolver returns that order restricted to the ids whose stored
  credential, if there is one, belongs to the provider, with duplicates removed (the
  first occurrence of each id is kept); cooldowns, \<^verbatim>\<open>lastUsed\<close> and the clock play no
  part. A non-empty \<^verbatim>\<open>preferredProfile\<close> that is a member of this list is moved to the
  front; one that is not a member is not inserted. When no configured id is stored
  under another provider, the result is exactly the configured order with duplicates
  removed (and the preferred member first).
  This holds when no configured id that the store does not hold is the name of a member
  that every object inherits (\<^verbatim>\<open>constructor\<close>, \<^verbatim>\<open>toString\<close>, ...): for such an id the
  resolver calls \<^verbatim>\<open>normalizeProviderId(undefined)\<close>, and when that call throws, the
  resolver throws its error.
\<close>

theorem resolveAuthProfileOrder_configured_order:
  assumes declared: "find (\<lambda>(k, v). N k = N provider) (auth_order cfg) = Some (providerName, ord)"
      and "ord \<noteq> []"
  shows
    "((\<forall>profileId \<in> set ord.
         map_of (profiles store) profileId = None \<longrightarrow> profileId \<notin> set objectPrototypeKeys)
      \<longrightarrow>
      (let kept = filter (\<lambda>profileId.
                     case map_of (profiles store) profileId of
                       None \<Rightarrow> True
                     | Some cred \<Rightarrow> N (cred_provider cred) = N provider) ord;
           deduped = rev (remdups (rev kept))
       in (\<exists>result.
             resolveAuthProfileOrder N U cfg store provider preferredProfile clock = Inr result
           \<and> (case preferredProfile of
                 None \<Rightarrow> result = deduped
               | Some p \<Rightarrow>
                   (p \<noteq> [] \<and> p \<in> set deduped \<longrightarrow> result = p # filter (\<lambda>e. e \<noteq> p) deduped)
                   \<and> (p = [] \<or> p \<notin> set deduped \<longrightarrow> result = deduped)
                   \<and> (p \<notin> set deduped \<longrightarrow> p \<notin> set result)))
          \<and> ((\<forall>profileId cred. profileId \<in> set ord
                   \<and> map_of (profiles store) profileId = Some cred
                 \<longrightarrow> N (cred_provider cred) = N provider)
               \<longrightarrow> kept = ord)
          \<and> (\<forall>store' clock'. profiles store' = profiles store \<longrightarrow>
                resolveAuthProfileOrder N U cfg store' provider preferredProfile clock'
                  = resolveAuthProfileOrder N U cfg store provider preferredProfile clock)))
     \<and> (\<forall>err. U = Inl err
            \<and> (\<exists>profileId \<in> set ord.
                  map_of (profiles store) profileId = None \<and> profileId \<in> set objectPrototypeKeys)
          \<longrightarrow> resolveAuthProfileOrder N U cfg store provider preferredProfile clock = Inl err)"
proof (intro conjI impI allI)
  have configured: "configuredOrder N cfg (N provider) = Some ord"
    using declared by (simp add: configuredOrder_def)
  note assms = configured assms(2)
  let ?keep = "\<lambda>profileId. case map_of (profiles store) profileId of
                      None \<Rightarrow> True
                    | Some cred \<Rightarrow> N (cred_provider cred) = N provider"
  let ?kept = "filter ?keep ord"
  let ?d = "rev (remdups (rev ?kept))"
  assume plain: "\<forall>profileId \<in> set ord.
         map_of (profiles store) profileId = None \<longrightarrow> profileId \<notin> set objectPrototypeKeys"
  have res: "resolveAuthProfileOrder N U cfg st provider preferredProfile t
               = Inr (preferFirst preferredProfile ?d)"
    if "profiles st = profiles store" for st t
    using resolve_configured[OF assms, of st U preferredProfile t] plain that
    by (simp add: dedupe_first_occurrences)
  have r0: "resolveAuthProfileOrder N U cfg store provider preferredProfile clock
               = Inr (preferFirst preferredProfile ?d)"
    by (rule res) simp
  have a: "\<exists>result.
             resolveAuthProfileOrder N U cfg store provider preferredProfile clock = Inr result
           \<and> (case preferredProfile of
                 None \<Rightarrow> result = ?d
               | Some p \<Rightarrow>
                   (p \<noteq> [] \<and> p \<in> set ?d \<longrightarrow> result = p # filter (\<lambda>e. e \<noteq> p) ?d)
                   \<and> (p = [] \<or> p \<notin> set ?d \<longrightarrow> result = ?d)
                   \<and> (p \<notin> set ?d \<longrightarrow> p \<notin> set result))"
    unfolding r0
    by (rule exI[where x = "preferFirst preferredProfile ?d"])
       (simp add: preferFirst_def split: option.splits)
  have b: "(\<forall>profileId cred. profileId \<in> set ord
                  \<and> map_of (profiles store) profileId = Some cred
                \<longrightarrow> N (cred_provider cred) = N provider) \<longrightarrow> ?kept = ord"
  proof
    assume h: "\<forall>profileId cred. profileId \<in> set ord
                  \<and> map_of (profiles store) profileId = Some cred
                \<longrightarrow> N (cred_provider cred) = N provider"
    have "\<forall>x \<in> set ord. ?keep x"
    proof
      fix x assume "x \<in> set ord"
      with h show "?keep x" by (cases "map_of (profiles store) x") auto
    qed
    then show "?kept = ord" by (simp add: filter_id_conv)
  qed
  have c: "\<forall>store' clock'. profiles store' = profiles store \<longrightarrow>
               resolveAuthProfileOrder N U cfg store' provider preferredProfile clock'
                 = resolveAuthProfileOrder N U cfg store provider preferredProfile clock"
    using res r0 by simp
  show "let kept = ?kept; deduped = rev (remdups (rev kept))
       in (\<exists>result.
             resolveAuthProfileOrder N U cfg store provider preferredProfile clock = Inr result
           \<and> (case preferredProfile of
                 None \<Rightarrow> result = deduped
               | Some p \<Rightarrow>
                   (p \<noteq> [] \<and> p \<in> set deduped \<longrightarrow> result = p # filter (\<lambda>e. e \<noteq> p) deduped)
                   \<and> (p = [] \<or> p \<notin> set deduped \<longrightarrow> result = deduped)
                   \<and> (p \<notin> set deduped \<longrightarrow> p \<notin> set result)))
          \<and> ((\<forall>profileId cred. profileId \<in> set ord
                   \<and> map_of (profiles store) profileId = Some cred
                 \<longrightarrow> N (cred_provider cred) = N provider)
               \<longrightarrow> kept = ord)
          \<and> (\<forall>store' clock'. profiles store' = profiles store \<longrightarrow>
                resolveAuthProfileOrder N U cfg store' provider preferredProfile clock'
                  = resolveAuthProfileOrder N U cfg store provider preferredProfile clock)"
    unfolding Let_def by (intro conjI a b c)
next
  fix err
  assume "U = Inl err
            \<and> (\<exists>profileId \<in> set ord.
                  map_of (profiles store) profileId = None \<and> profileId \<in> set objectPrototypeKeys)"
  moreover have "configuredOrder N cfg (N provider) = Some ord"
    using declared by (simp add: configuredOrder_def)
  ultimately show "resolveAuthProfileOrder N U cfg store provider preferredProfile clock = Inl err"
    using resolve_configured_throws[of N cfg provider ord U err store preferredProfile clock] by blast
qed

theorem resolveAuthProfileOrder_configured_order_witness:
  "find (\<lambda>(k, v). id k = id ''anthropic'') (auth_order mixed_cfg)
     = Some (''anthropic'', [''openai:default'', ''anthropic:work''])
   \<and> [''openai:default'', ''anthropic:work''] \<noteq> []
   \<and> resolveAuthProfileOrder id typeError mixed_cfg mixed_store ''anthropic'' (Some ''anthropic:work'')
        (\<lambda>n. 7)
        = Inr [''anthropic:work'']
   \<and> resolveAuthProfileOrder id typeError mixed_cfg mixed_store ''anthropic'' (Some ''openai:default'')
        (\<lambda>n. 7)
        = Inr [''anthropic:work'']
   \<and> resolveAuthProfileOrder id typeError mixed_cfg (mixed_store\<lparr>profiles := tl (profiles mixed_store)\<rparr>)
        ''anthropic'' (Some ''anthropic:work'') (\<lambda>n. 7)
        = Inr [''anthropic:work'', ''openai:default'']
   \<and> find (\<lambda>(k, v). id k = id ''anthropic'') (auth_order inherited_cfg)
       = Some (''anthropic'', [''anthropic:work'', ''constructor''])
   \<and> map_of (profiles mixed_store) ''constructor'' = None
   \<and> ''constructor'' \<in> set objectPrototypeKeys
   \<and> resolveAuthProfileOrder id typeError inherited_cfg mixed_store ''anthropic'' None (\<lambda>n. 7)
        = Inl (Error ''TypeError: Cannot read properties of undefined'')"
proof -
  have h1: "find (\<lambda>(k, v). id k = id ''anthropic'') (auth_order mixed_cfg)
              = Some (''anthropic'', [''openai:default'', ''anthropic:work''])"
    by (simp add: mixed_cfg_def)
  have h2: "[''openai:default'', ''anthropic:work''] \<noteq> []" by simp
  have plain: "\<forall>profileId \<in> set [''openai:default'', ''anthropic:work''].
                 map_of (profiles store) profileId = None \<longrightarrow> profileId \<notin> set objectPrototypeKeys"
    for store :: AuthProfileStore
    by (simp add: objectPrototypeKeys_def)
  have "resolveAuthProfileOrder id typeError mixed_cfg mixed_store ''anthropic'' (Some ''anthropic:work'')
          (\<lambda>n. 7) = Inr [''anthropic:work'']"
    using resolveAuthProfileOrder_configured_order[where N = id
              and provider = "''anthropic''" and store = mixed_store and U = typeError
              and preferredProfile = "Some ''anthropic:work''" and clock = "\<lambda>n. 7",
            OF h1 h2, THEN conjunct1, THEN mp, OF plain, unfolded Let_def, THEN conjunct1]
    by (auto simp: mixed_store_def)
  moreover
  have "resolveAuthProfileOrder id typeError mixed_cfg mixed_store ''anthropic'' (Some ''openai:default'')
          (\<lambda>n. 7) = Inr [''anthropic:work'']"
    using resolveAuthProfileOrder_configured_order[where N = id
              and provider = "''anthropic''" and store = mixed_store and U = typeError
              and preferredProfile = "Some ''openai:default''" and clock = "\<lambda>n. 7",
            OF h1 h2, THEN conjunct1, THEN mp, OF plain, unfolded Let_def, THEN conjunct1]
    by (auto simp: mixed_store_def)
  moreover
  have "resolveAuthProfileOrder id typeError mixed_cfg (mixed_store\<lparr>profiles := tl (profiles mixed_store)\<rparr>)
          ''anthropic'' (Some ''anthropic:work'') (\<lambda>n. 7)
          = Inr [''anthropic:work'', ''openai:default'']"
    using resolveAuthProfileOrder_configured_order[where N = id
              and provider = "''anthropic''"
              and store = "mixed_store\<lparr>profiles := tl (profiles mixed_store)\<rparr>" and U = typeError
              and preferredProfile = "Some ''anthropic:work''" and clock = "\<lambda>n. 7",
            OF h1 h2, THEN conjunct1, THEN mp, OF plain, unfolded Let_def, THEN conjunct1]
    by (auto simp: mixed_store_def)
  moreover
  have h3: "find (\<lambda>(k, v). id k = id ''anthropic'') (auth_order inherited_cfg)
              = Some (''anthropic'', [''anthropic:work'', ''constructor''])"
    by (simp add: inherited_cfg_def)
  have h4: "[''anthropic:work'', ''constructor''] \<noteq> []" by simp
  have h5: "map_of (profiles mixed_store) ''constructor'' = None"
    by (simp add: mixed_store_def)
  have h6: "''constructor'' \<in> set objectPrototypeKeys"
    by (simp add: objectPrototypeKeys_def)
  have "resolveAuthProfileOrder id typeError inherited_cfg mixed_store ''anthropic'' None (\<lambda>n. 7)
          = Inl (Error ''TypeError: Cannot read properties of undefined'')"
    using resolveAuthProfileOrder_configured_order[where N = id and provider = "''anthropic''"
              and U = typeError and store = mixed_store and preferredProfile = None
              and clock = "\<lambda>n. 7", OF h3 h4, THEN conjunct2,
            THEN spec[of _ "Error ''TypeError: Cannot read properties of undefined''"], THEN mp] h5 h6
    by (auto simp: typeError_def)
  ultimately show ?thesis using h1 h2 h3 h5 h6 by simp
qed

subsection \<open>Determinism of the resolver\<close>

text \<open>
  C9. Two invocations of \<^verbatim>\<open>resolveAuthProfileOrder\<close> with identical provider, store,
  config and \<^verbatim>\<open>preferredProfile\<close> return identical results (the same list, or the same
  error) whenever the clock readings of both lie in a span of time in which no
  profile's cooldown runs out; the readings themselves may differ, within one
  invocation and between the two. In particular two invocations at the same current
  time, whose readings are all that time, return identical lists: there the span is a
  single moment and the condition on the cooldowns holds of itself. What
  \<^verbatim>\<open>normalizeProviderId\<close> returns is taken to depend on its argument alone.
\<close>

theorem resolveAuthProfileOrder_deterministic:
  assumes "\<forall>n. lo \<le> clock n \<and> clock n \<le> hi" and "\<forall>n. lo \<le> clock' n \<and> clock' n \<le> hi"
      and "\<forall>p stats c. map_of (usageStats store) p = Some stats \<and> cooldownUntil stats = Some c
             \<longrightarrow> c \<le> lo \<or> hi < c"
  shows "resolveAuthProfileOrder N U cfg store provider preferredProfile clock
           = resolveAuthProfileOrder N U cfg store provider preferredProfile clock'"
proof -
  have "orderProfilesByMode ps store clock = orderProfilesByMode ps store clock'" for ps
    by (simp only: orderProfilesByMode_span[OF assms(1,3)] orderProfilesByMode_span[OF assms(2,3)])
  then show ?thesis
    by (simp only: resolveAuthProfileOrder_def)
qed

theorem resolveAuthProfileOrder_deterministic_witness:
  "(\<forall>n. (1000::int) \<le> 1000 + int (min n 3) \<and> 1000 + int (min n 3) \<le> 1003)
   \<and> (\<forall>n::nat. (1000::int) \<le> 1003 \<and> (1003::int) \<le> 1003)
   \<and> resolveAuthProfileOrder id typeError no_config example_store ''p'' None (\<lambda>n. 1000 + int (min n 3))
       = Inr [''p:oauth1'', ''p:a'', ''p:tok'', ''p:cool'']
   \<and> resolveAuthProfileOrder id typeError no_config example_store ''p'' None (\<lambda>n. 1003)
       = Inr [''p:oauth1'', ''p:a'', ''p:tok'', ''p:cool'']
   \<and> resolveAuthProfileOrder id typeError no_config example_store ''p'' None (\<lambda>n. 3000)
       = Inr [''p:oauth1'', ''p:tok'', ''p:a'', ''p:cool'']"
proof -
  have h1: "\<forall>n. (1000::int) \<le> 1000 + int (min n 3) \<and> 1000 + int (min n 3) \<le> 1003"
    by simp
  have h2: "\<forall>n::nat. (1000::int) \<le> 1003 \<and> (1003::int) \<le> 1003"
    by simp
  have h3: "\<forall>p stats c. map_of (usageStats example_store) p = Some stats \<and> cooldownUntil stats = Some c
              \<longrightarrow> c \<le> 1000 \<or> 1003 < c"
    by (auto simp: example_store_def split: if_splits)
  have r: "resolveAuthProfileOrder id typeError no_config example_store ''p'' None (\<lambda>n. 1000 + int (min n 3))
             = Inr [''p:oauth1'', ''p:a'', ''p:tok'', ''p:cool'']"
    by code_simp
  have later: "resolveAuthProfileOrder id typeError no_config example_store ''p'' None (\<lambda>n. 3000)
             = Inr [''p:oauth1'', ''p:tok'', ''p:a'', ''p:cool'']"
    by code_simp
  from resolveAuthProfileOrder_deterministic[OF h1 h2 h3, where N = id and U = typeError
         and cfg = no_config and provider = "''p''" and preferredProfile = None] r
  have "resolveAuthProfileOrder id typeError no_config example_store ''p'' None (\<lambda>n. 1003)
          = Inr [''p:oauth1'', ''p:a'', ''p:tok'', ''p:cool'']"
    by simp
  with h1 h2 r later show ?thesis by blast
qed

section \<open>Resolving the API key of a profile (auth-profiles)\<close>

text \<open>The key handed to the provider: the access string itself, or, for the two Google
  providers that need it, \<^verbatim>\<open>JSON.stringify({token, projectId})\<close>, kept here as the pair
  that is serialised.\<close>

datatype ApiKeyMaterial = PlainKey string | TokenWithProjectId string "string option"

record ResolvedApiKey =
  res_apiKey :: ApiKeyMaterial
  res_provider :: string
  res_email :: "string option"

definition buildOAuthApiKey :: "string \<Rightarrow> OAuthCredential \<Rightarrow> ApiKeyMaterial" where
  "buildOAuthApiKey provider credentials =
     (let needsProjectId = (provider = ''google-gemini-cli'' \<or> provider = ''google-antigravity'')
      in if needsProjectId then TokenWithProjectId (access credentials) (projectId credentials)
         else PlainKey (access credentials))"

text \<open>
  \<^verbatim>\<open>resolveApiKeyForProfile\<close>. The last step of the source, for an expired OAuth
  credential, refreshes the token over the network under the store's file lock and, when
  that throws, tries the legacy-default fallback; its outcome (a key, \<^verbatim>\<open>null\<close> or a
  thrown error) is the parameter \<open>refreshExpired\<close>. Everything before it is the source's.
\<close>

definition resolveApiKeyForProfile ::
  "(ClawdbotConfig \<Rightarrow> AuthProfileStore \<Rightarrow> string \<Rightarrow> OAuthCredential \<Rightarrow> error + ResolvedApiKey option)
     \<Rightarrow> ClawdbotConfig \<Rightarrow> AuthProfileStore \<Rightarrow> string \<Rightarrow> int \<Rightarrow> error + ResolvedApiKey option" where
  "resolveApiKeyForProfile refreshExpired cfg store profileId now =
     (case map_of (profiles store) profileId of
        None \<Rightarrow> Inr None
      | Some cred \<Rightarrow>
          (let profileConfig = map_of (auth_profiles cfg) profileId
           in if (case profileConfig of
                    None \<Rightarrow> False
                  | Some pc \<Rightarrow> profile_provider pc \<noteq> cred_provider cred)
              then Inr None
              else if (case profileConfig of
                         None \<Rightarrow> False
                       | Some pc \<Rightarrow>
                           mode pc \<noteq> cred_type cred
                           \<and> \<not> (mode pc = T_oauth \<and> cred_type cred = T_token))
              then Inr None
              else
                (case cred of
                   ApiKey c \<Rightarrow>
                     Inr (Some \<lparr> res_apiKey = PlainKey (key c), res_provider = ak_provider c,
                                 res_email = ak_email c \<rparr>)
                 | Token c \<Rightarrow>
                     (let tok = trim (token c)
                      in if tok = [] then Inr None
                         else if (case tk_expires c of
                                    None \<Rightarrow> False
                                  | Some e \<Rightarrow> e > 0 \<and> now \<ge> e)
                         then Inr None
                         else Inr (Some \<lparr> res_apiKey = PlainKey tok, res_provider = tk_provider c,
                                          res_email = tk_email c \<rparr>))
                 | OAuth c \<Rightarrow>
                     if now < expires c
                     then Inr (Some \<lparr> res_apiKey = buildOAuthApiKey (oa_provider c) c,
                                      res_provider = oa_provider c, res_email = oa_email c \<rparr>)
                     else refreshExpired cfg store profileId c)))"

text \<open>A stored static token for \<^verbatim>\<open>anthropic\<close>, and a configuration that declares the same
  profile with mode \<^verbatim>\<open>oauth\<close>.\<close>

definition token_store :: AuthProfileStore where
  "token_store =
     \<lparr> version = 1,
       profiles = [(''anthropic:work'',
                    Token \<lparr> tk_provider = ''anthropic'', token = '' tok-1 '', tk_expires = Some 5000,
                            tk_email = None \<rparr>)],
       lastGood = [],
       usageStats = [] \<rparr>"

definition oauth_mode_cfg :: ClawdbotConfig where
  "oauth_mode_cfg =
     \<lparr> auth_profiles = [(''anthropic:work'',
                          \<lparr> profile_provider = ''anthropic'', mode = T_oauth, profile_email = None \<rparr>)],
       auth_order = [],
       agent_model_fallbacks = [] \<rparr>"

text \<open>
  C10. When the config declares the profile and the store holds a credential for it,
  \<^verbatim>\<open>resolveApiKeyForProfile\<close> returns \<^verbatim>\<open>null\<close> (it does not throw) if the declared
  provider differs from the credential's provider, and if the declared mode differs from
  the credential's type, with one exception: the declared mode \<^verbatim>\<open>oauth\<close> with a stored
  \<^verbatim>\<open>token\<close> credential of the declared provider is accepted, and the result is then the
  one the same store gives when the config declares nothing.
\<close>

theorem resolveApiKeyForProfile_config_mismatch:
  assumes "map_of (profiles store) profileId = Some cred"
      and "map_of (auth_profiles cfg) profileId = Some pc"
  shows "(profile_provider pc \<noteq> cred_provider cred \<longrightarrow>
            resolveApiKeyForProfile refreshExpired cfg store profileId now = Inr None)
       \<and> (mode pc \<noteq> cred_type cred \<and> \<not> (mode pc = T_oauth \<and> cred_type cred = T_token) \<longrightarrow>
            resolveApiKeyForProfile refreshExpired cfg store profileId now = Inr None)
       \<and> (profile_provider pc = cred_provider cred \<and> mode pc = T_oauth \<and> cred_type cred = T_token \<longrightarrow>
            resolveApiKeyForProfile refreshExpired cfg store profileId now
              = resolveApiKeyForProfile refreshExpired (cfg\<lparr>auth_profiles := []\<rparr>) store profileId now)"
proof (intro conjI impI)
  assume "profile_provider pc \<noteq> cred_provider cred"
  with assms show "resolveApiKeyForProfile refreshExpired cfg store profileId now = Inr None"
    by (simp add: resolveApiKeyForProfile_def)
next
  assume "mode pc \<noteq> cred_type cred \<and> \<not> (mode pc = T_oauth \<and> cred_type cred = T_token)"
  with assms show "resolveApiKeyForProfile refreshExpired cfg store profileId now = Inr None"
    by (simp add: resolveApiKeyForProfile_def)
next
  assume h: "profile_provider pc = cred_provider cred \<and> mode pc = T_oauth \<and> cred_type cred = T_token"
  then obtain c where c: "cred = Token c" by (cases cred) auto
  with h assms show "resolveApiKeyForProfile refreshExpired cfg store profileId now
      = resolveApiKeyForProfile refreshExpired (cfg\<lparr>auth_profiles := []\<rparr>) store profileId now"
    by (simp add: resolveApiKeyForProfile_def)
qed

theorem resolveApiKeyForProfile_config_mismatch_witness:
  "map_of (profiles token_store) ''anthropic:work''
     = Some (Token \<lparr> tk_provider = ''anthropic'', token = '' tok-1 '', tk_expires = Some 5000,
                     tk_email = None \<rparr>)
   \<and> map_of (auth_profiles oauth_mode_cfg) ''anthropic:work''
     = Some \<lparr> profile_provider = ''anthropic'', mode = T_oauth, profile_email = None \<rparr>
   \<and> resolveApiKeyForProfile (\<lambda>_ _ _ _. Inr None) oauth_mode_cfg token_store ''anthropic:work'' 1000
     = Inr (Some \<lparr> res_apiKey = PlainKey ''tok-1'', res_provider = ''anthropic'', res_email = None \<rparr>)"
proof -
  have h1: "map_of (profiles token_store) ''anthropic:work''
     = Some (Token \<lparr> tk_provider = ''anthropic'', token = '' tok-1 '', tk_expires = Some 5000,
                     tk_email = None \<rparr>)"
    by (simp add: token_store_def)
  have h2: "map_of (auth_profiles oauth_mode_cfg) ''anthropic:work''
     = Some \<lparr> profile_provider = ''anthropic'', mode = T_oauth, profile_email = None \<rparr>"
    by (simp add: oauth_mode_cfg_def)
  have plain: "resolveApiKeyForProfile (\<lambda>_ _ _ _. Inr None) (oauth_mode_cfg\<lparr>auth_profiles := []\<rparr>)
                 token_store ''anthropic:work'' 1000
     = Inr (Some \<lparr> res_apiKey = PlainKey ''tok-1'', res_provider = ''anthropic'', res_email = None \<rparr>)"
    by (simp add: resolveApiKeyForProfile_def token_store_def oauth_mode_cfg_def trim_def
        isWhitespace_def)
  from resolveApiKeyForProfile_config_mismatch[OF h1 h2, of "\<lambda>_ _ _ _. Inr None" 1000] plain
  have "resolveApiKeyForProfile (\<lambda>_ _ _ _. Inr None) oauth_mode_cfg token_store ''anthropic:work'' 1000
     = Inr (Some \<lparr> res_apiKey = PlainKey ''tok-1'', res_provider = ''anthropic'', res_email = None \<rparr>)"
    by simp
  with h1 h2 show ?thesis by simp
qed

section \<open>Syncing credentials of external CLI tools (auth-profiles)\<close>

definition CLAUDE_CLI_PROFILE_ID :: string where
  "CLAUDE_CLI_PROFILE_ID = ''anthropic:claude-cli''"

definition CODEX_CLI_PROFILE_ID :: string where
  "CODEX_CLI_PROFILE_ID = ''openai-codex:codex-cli''"

text \<open>\<^verbatim>\<open>x ?? 0\<close> on an optional number.\<close>

definition orZero :: "int option \<Rightarrow> int" where
  "orZero x = (case x of None \<Rightarrow> 0 | Some v \<Rightarrow> v)"

definition shallowEqualTokenCredentials :: "TokenCredential option \<Rightarrow> TokenCredential \<Rightarrow> bool" where
  "shallowEqualTokenCredentials a b =
     (case a of
        None \<Rightarrow> False
      | Some a' \<Rightarrow>
          tk_provider a' = tk_provider b \<and> token a' = token b
          \<and> tk_expires a' = tk_expires b \<and> tk_email a' = tk_email b)"

definition shallowEqualOAuthCredentials :: "OAuthCredential option \<Rightarrow> OAuthCredential \<Rightarrow> bool" where
  "shallowEqualOAuthCredentials a b =
     (case a of
        None \<Rightarrow> False
      | Some a' \<Rightarrow>
          oa_provider a' = oa_provider b \<and> access a' = access b \<and> refresh a' = refresh b
          \<and> expires a' = expires b \<and> oa_email a' = oa_email b
          \<and> enterpriseUrl a' = enterpriseUrl b \<and> projectId a' = projectId b
          \<and> accountId a' = accountId b)"

text \<open>
  \<^verbatim>\<open>syncExternalCliCredentials\<close>. Reading the two tools' credential files (and the macOS
  keychain) is input: \<open>claudeCreds\<close> is what \<^verbatim>\<open>readClaudeCliCredentials\<close> returned, a
  token credential or \<^verbatim>\<open>null\<close>, and \<open>codexCreds\<close> what \<^verbatim>\<open>readCodexCliCredentials\<close>
  returned, an OAuth credential or \<^verbatim>\<open>null\<close>. The store is mutated in place in the
  source; here the new store is returned beside the flag. The assignment
  \<^verbatim>\<open>store.profiles[id] = cred\<close> replaces the entry where it stands or appends one.
  The two blocks of the function are the two definitions below, applied in the source's
  order.
\<close>

definition syncClaudeCli :: "TokenCredential option \<Rightarrow> int \<Rightarrow> AuthProfileStore \<Rightarrow> bool \<times> AuthProfileStore" where
  "syncClaudeCli claudeCreds now store =
     (case claudeCreds of
        None \<Rightarrow> (False, store)
      | Some cc \<Rightarrow>
          (let existing = map_of (profiles store) CLAUDE_CLI_PROFILE_ID;
               existingToken = (case existing of Some (Token t) \<Rightarrow> Some t | _ \<Rightarrow> None);
               shouldUpdate =
                 (case existingToken of
                    None \<Rightarrow> True
                  | Some et \<Rightarrow>
                      tk_provider et \<noteq> ''anthropic''
                      \<or> orZero (tk_expires et) \<le> now
                      \<or> (orZero (tk_expires cc) > now
                          \<and> orZero (tk_expires cc) > orZero (tk_expires et)))
           in if shouldUpdate \<and> \<not> shallowEqualTokenCredentials existingToken cc
              then (True, store\<lparr>profiles := AList.update CLAUDE_CLI_PROFILE_ID (Token cc) (profiles store)\<rparr>)
              else (False, store)))"

definition syncCodexCli :: "OAuthCredential option \<Rightarrow> int \<Rightarrow> AuthProfileStore \<Rightarrow> bool \<times> AuthProfileStore" where
  "syncCodexCli codexCreds now store =
     (case codexCreds of
        None \<Rightarrow> (False, store)
      | Some xc \<Rightarrow>
          (let existing = map_of (profiles store) CODEX_CLI_PROFILE_ID;
               existingOAuth = (case existing of Some (OAuth c) \<Rightarrow> Some c | _ \<Rightarrow> None);
               shouldUpdate =
                 (case existingOAuth of
                    None \<Rightarrow> True
                  | Some eo \<Rightarrow>
                      oa_provider eo \<noteq> ''openai-codex''
                      \<or> expires eo \<le> now
                      \<or> expires xc > expires eo)
           in if shouldUpdate \<and> \<not> shallowEqualOAuthCredentials existingOAuth xc
              then (True, store\<lparr>profiles := AList.update CODEX_CLI_PROFILE_ID (OAuth xc) (profiles store)\<rparr>)
              else (False, store)))"

definition syncExternalCliCredentials ::
  "TokenCredential option \<Rightarrow> OAuthCredential option \<Rightarrow> int \<Rightarrow> AuthProfileStore
     \<Rightarrow> bool \<times> AuthProfileStore" where
  "syncExternalCliCredentials claudeCreds codexCreds now store =
     (let (mutated1, store1) = syncClaudeCli claudeCreds now store;
          (mutated2, store2) = syncCodexCli codexCreds now store1
      in (mutated1 \<or> mutated2, store2))"

text \<open>A store whose Claude CLI token ran out at 900, and the one of the test "does not
  overwrite fresher store token with older Claude CLI credentials", with the clock at
  1000: the stored token lasts until 4600, the tool's until 2800.\<close>

definition stale_store :: AuthProfileStore where
  "stale_store =
     \<lparr> version = 1,
       profiles = [(''anthropic:claude-cli'',
                    Token \<lparr> tk_provider = ''anthropic'', token = ''store-access'',
                            tk_expires = Some 900, tk_email = None \<rparr>)],
       lastGood = [],
       usageStats = [] \<rparr>"

definition fresh_store :: AuthProfileStore where
  "fresh_store =
     \<lparr> version = 1,
       profiles = [(''anthropic:claude-cli'',
                    Token \<lparr> tk_provider = ''anthropic'', token = ''store-access'',
                            tk_expires = Some 4600, tk_email = None \<rparr>)],
       lastGood = [],
       usageStats = [] \<rparr>"

text \<open>A store whose Claude CLI token has no expiry, as the token flow of
  \<^verbatim>\<open>auth-choice.ts\<close> stores one for a token that is said not to expire.\<close>

definition unlimited_store :: AuthProfileStore where
  "unlimited_store =
     \<lparr> version = 1,
       profiles = [(''anthropic:claude-cli'',
                    Token \<lparr> tk_provider = ''anthropic'', token = ''store-access'',
                            tk_expires = None, tk_email = None \<rparr>)],
       lastGood = [],
       usageStats = [] \<rparr>"

definition cli_token :: "int \<Rightarrow> TokenCredential" where
  "cli_token e = \<lparr> tk_provider = ''anthropic'', token = ''cli-access'', tk_expires = Some e,
                    tk_email = None \<rparr>"

subsection \<open>What a sync may overwrite\<close>

lemma reserved_ids_differ: "CLAUDE_CLI_PROFILE_ID \<noteq> CODEX_CLI_PROFILE_ID"
  by (simp add: CLAUDE_CLI_PROFILE_ID_def CODEX_CLI_PROFILE_ID_def)

lemma syncClaudeCli_profiles:
  "map_of (profiles (snd (syncClaudeCli claudeCreds now store))) =
     (if fst (syncClaudeCli claudeCreds now store)
      then (map_of (profiles store))(CLAUDE_CLI_PROFILE_ID \<mapsto> Token (the claudeCreds))
      else map_of (profiles store))"
  by (simp add: syncClaudeCli_def Let_def update_conv' split: option.splits)

lemma syncCodexCli_profiles:
  "map_of (profiles (snd (syncCodexCli codexCreds now store))) =
     (if fst (syncCodexCli codexCreds now store)
      then (map_of (profiles store))(CODEX_CLI_PROFILE_ID \<mapsto> OAuth (the codexCreds))
      else map_of (profiles store))"
  by (simp add: syncCodexCli_def Let_def update_conv' split: option.splits)

lemma syncClaudeCli_mutated:
  "fst (syncClaudeCli claudeCreds now store) \<Longrightarrow> \<exists>cc. claudeCreds = Some cc"
  by (cases claudeCreds) (simp_all add: syncClaudeCli_def)

lemma syncCodexCli_mutated:
  "fst (syncCodexCli codexCreds now store) \<Longrightarrow> \<exists>xc. codexCreds = Some xc"
  by (cases codexCreds) (simp_all add: syncCodexCli_def)

lemma syncClaudeCli_rest:
  "usageStats (snd (syncClaudeCli claudeCreds now store)) = usageStats store
   \<and> lastGood (snd (syncClaudeCli claudeCreds now store)) = lastGood store"
  by (simp add: syncClaudeCli_def Let_def split: option.splits)

lemma syncCodexCli_rest:
  "usageStats (snd (syncCodexCli codexCreds now store)) = usageStats store
   \<and> lastGood (snd (syncCodexCli codexCreds now store)) = lastGood store"
  by (simp add: syncCodexCli_def Let_def split: option.splits)

lemma sync_snd:
  "snd (syncExternalCliCredentials claudeCreds codexCreds now store)
     = snd (syncCodexCli codexCreds now (snd (syncClaudeCli claudeCreds now store)))"
  by (simp add: syncExternalCliCredentials_def Let_def split: prod.splits)

lemma syncClaudeCli_keeps:
  assumes "map_of (profiles store) CLAUDE_CLI_PROFILE_ID = Some (Token et)"
      and "tk_provider et = ''anthropic''" and "now < orZero (tk_expires et)"
      and "\<And>cc. claudeCreds = Some cc \<Longrightarrow>
             orZero (tk_expires cc) \<le> now \<or> orZero (tk_expires cc) \<le> orZero (tk_expires et)"
  shows "\<not> fst (syncClaudeCli claudeCreds now store)"
proof (cases claudeCreds)
  case None
  then show ?thesis by (simp add: syncClaudeCli_def)
next
  case (Some cc)
  with assms(4) have "orZero (tk_expires cc) \<le> now \<or> orZero (tk_expires cc) \<le> orZero (tk_expires et)"
    by simp
  with Some assms(1-3) show ?thesis
    by (auto simp: syncClaudeCli_def Let_def)
qed

lemma syncCodexCli_keeps:
  assumes "map_of (profiles store) CODEX_CLI_PROFILE_ID = Some (OAuth eo)"
      and "oa_provider eo = ''openai-codex''" and "now < expires eo"
      and "\<And>xc. codexCreds = Some xc \<Longrightarrow> expires xc \<le> expires eo"
  shows "\<not> fst (syncCodexCli codexCreds now store)"
proof (cases codexCreds)
  case None
  then show ?thesis by (simp add: syncCodexCli_def)
next
  case (Some xc)
  with assms(4) have "expires xc \<le> expires eo" by simp
  with Some assms(1-3) show ?thesis
    by (auto simp: syncCodexCli_def Let_def)
qed

lemma syncClaudeCli_takes:
  assumes "map_of (profiles store) CLAUDE_CLI_PROFILE_ID = Some (Token et)"
      and "(tk_expires et = None \<and> 0 \<le> now) \<or> (\<exists>e. tk_expires et = Some e \<and> e \<le> now)"
  shows "map_of (profiles (snd (syncClaudeCli (Some cc) now store))) CLAUDE_CLI_PROFILE_ID
           = Some (Token cc)"
proof -
  from assms(2) have expired: "orZero (tk_expires et) \<le> now" by (auto simp: orZero_def)
  show ?thesis
  proof (cases "shallowEqualTokenCredentials (Some et) cc")
    case True
    then have "et = cc" by (simp add: shallowEqualTokenCredentials_def)
    with True assms(1) show ?thesis by (simp add: syncClaudeCli_def Let_def)
  next
    case False
    with assms(1) expired show ?thesis
      by (simp add: syncClaudeCli_def Let_def update_conv')
  qed
qed

text \<open>A store that holds an unexpired OAuth credential under the Claude CLI id.\<close>

definition oauth_store :: AuthProfileStore where
  "oauth_store =
     \<lparr> version = 1,
       profiles = [(''anthropic:claude-cli'',
                    OAuth \<lparr> oa_provider = ''anthropic'', access = ''store-access'',
                            refresh = ''store-refresh'', expires = 4600, oa_email = None,
                            enterpriseUrl = None, projectId = None, accountId = None \<rparr>)],
       lastGood = [],
       usageStats = [] \<rparr>"

text \<open>
  Under the Claude CLI id the sync replaces every stored credential that is not a token
  by the tool's token, also an OAuth credential that has not expired: at time 1000 the
  stored OAuth credential lasts until 4600 and the tool's token until 2800. The comment
  above the test names \<^verbatim>\<open>existing is not oauth\<close> as the case for an update, and the
  test is \<^verbatim>\<open>existing?.type === "token"\<close>.
\<close>

lemma syncExternalCliCredentials_replaces_oauth:
  "map_of (profiles (snd (syncExternalCliCredentials (Some (cli_token 2800)) None 1000 oauth_store)))
     CLAUDE_CLI_PROFILE_ID = Some (Token (cli_token 2800))"
  by (simp add: syncExternalCliCredentials_def syncClaudeCli_def syncCodexCli_def oauth_store_def
      cli_token_def CLAUDE_CLI_PROFILE_ID_def orZero_def shallowEqualTokenCredentials_def)

text \<open>
  C8, as stated, fails: a stored credential with a later expiry than the external one is
  overwritten when it has itself expired. At time 1000 the store holds a Claude CLI token
  that expired at 900 and the tool's file holds one that expired at 800; the sync writes
  the older one over the newer.
\<close>

theorem syncExternalCliCredentials_overwrites_expired_counterexample:
  "map_of (profiles stale_store) CLAUDE_CLI_PROFILE_ID
     = Some (Token \<lparr> tk_provider = ''anthropic'', token = ''store-access'',
                     tk_expires = Some 900, tk_email = None \<rparr>)
   \<and> tk_expires (cli_token 800) = Some 800
   \<and> (800::int) < 900
   \<and> map_of (profiles (snd (syncExternalCliCredentials (Some (cli_token 800)) None 1000 stale_store)))
        CLAUDE_CLI_PROFILE_ID = Some (Token (cli_token 800))
   \<and> fst (syncExternalCliCredentials (Some (cli_token 800)) None 1000 stale_store)"
  by (simp add: syncExternalCliCredentials_def syncClaudeCli_def syncCodexCli_def stale_store_def
      cli_token_def CLAUDE_CLI_PROFILE_ID_def orZero_def shallowEqualTokenCredentials_def)

text \<open>
  C8, amended. A sync never overwrites a credential stored under a reserved profile id
  that has the type the sync writes there (a token under the Claude CLI id, an OAuth
  credential under the Codex CLI id), belongs to the expected provider and has an expiry
  that lies after the time of the sync, unless the external credential expires strictly
  later (and, for the Claude CLI token, after the time of the sync; an external token
  without expiry counts as expiring at time 0). A token stored under the Claude CLI id
  that has expired, or that has no expiry, is replaced by the tool's token whenever the
  tool has one. What a sync writes under a reserved id is the external credential
  itself, a token under the Claude CLI id and an OAuth credential under the Codex CLI
  id; every other profile, the usage statistics and the last-good map are left as they
  were.
  The claim's second half, that a stored credential is never replaced by one of a weaker
  type, is neither promised nor denied here: the code replaces an unexpired OAuth
  credential under the Claude CLI id by the tool's token (the lemma above), against its
  own comment.
\<close>

theorem syncExternalCliCredentials_keeps_fresh:
  "(\<forall>et e. map_of (profiles store) CLAUDE_CLI_PROFILE_ID = Some (Token et)
          \<and> tk_provider et = ''anthropic'' \<and> tk_expires et = Some e \<and> now < e
          \<and> (\<forall>cc. claudeCreds = Some cc \<longrightarrow>
                 (case tk_expires cc of None \<Rightarrow> 0 | Some x \<Rightarrow> x) \<le> now
                 \<or> (case tk_expires cc of None \<Rightarrow> 0 | Some x \<Rightarrow> x) \<le> e)
        \<longrightarrow> map_of (profiles (snd (syncExternalCliCredentials claudeCreds codexCreds now store)))
              CLAUDE_CLI_PROFILE_ID = Some (Token et))
   \<and> (\<forall>eo. map_of (profiles store) CODEX_CLI_PROFILE_ID = Some (OAuth eo)
          \<and> oa_provider eo = ''openai-codex'' \<and> now < expires eo
          \<and> (\<forall>xc. codexCreds = Some xc \<longrightarrow> expires xc \<le> expires eo)
        \<longrightarrow> map_of (profiles (snd (syncExternalCliCredentials claudeCreds codexCreds now store)))
              CODEX_CLI_PROFILE_ID = Some (OAuth eo))
   \<and> (\<forall>et cc. map_of (profiles store) CLAUDE_CLI_PROFILE_ID = Some (Token et)
          \<and> ((tk_expires et = None \<and> 0 \<le> now) \<or> (\<exists>e. tk_expires et = Some e \<and> e \<le> now))
          \<and> claudeCreds = Some cc
        \<longrightarrow> map_of (profiles (snd (syncExternalCliCredentials claudeCreds codexCreds now store)))
              CLAUDE_CLI_PROFILE_ID = Some (Token cc))
   \<and> (map_of (profiles (snd (syncExternalCliCredentials claudeCreds codexCreds now store)))
         CLAUDE_CLI_PROFILE_ID = map_of (profiles store) CLAUDE_CLI_PROFILE_ID
       \<or> (\<exists>cc. claudeCreds = Some cc
              \<and> map_of (profiles (snd (syncExternalCliCredentials claudeCreds codexCreds now store)))
                   CLAUDE_CLI_PROFILE_ID = Some (Token cc)))
   \<and> (map_of (profiles (snd (syncExternalCliCredentials claudeCreds codexCreds now store)))
         CODEX_CLI_PROFILE_ID = map_of (profiles store) CODEX_CLI_PROFILE_ID
       \<or> (\<exists>xc. codexCreds = Some xc
              \<and> map_of (profiles (snd (syncExternalCliCredentials claudeCreds codexCreds now store)))
                   CODEX_CLI_PROFILE_ID = Some (OAuth xc)))
   \<and> (\<forall>profileId. profileId \<noteq> CLAUDE_CLI_PROFILE_ID \<and> profileId \<noteq> CODEX_CLI_PROFILE_ID
        \<longrightarrow> map_of (profiles (snd (syncExternalCliCredentials claudeCreds codexCreds now store))) profileId
              = map_of (profiles store) profileId)
   \<and> usageStats (snd (syncExternalCliCredentials claudeCreds codexCreds now store)) = usageStats store
   \<and> lastGood (snd (syncExternalCliCredentials claudeCreds codexCreds now store)) = lastGood store"
proof -
  let ?s1 = "snd (syncClaudeCli claudeCreds now store)"
  let ?s2 = "snd (syncCodexCli codexCreds now ?s1)"
  have claude_after: "map_of (profiles ?s2) CLAUDE_CLI_PROFILE_ID = map_of (profiles ?s1) CLAUDE_CLI_PROFILE_ID"
    using reserved_ids_differ by (simp add: syncCodexCli_profiles)
  have codex_before: "map_of (profiles ?s1) CODEX_CLI_PROFILE_ID = map_of (profiles store) CODEX_CLI_PROFILE_ID"
    using reserved_ids_differ by (simp add: syncClaudeCli_profiles)
  have a: "map_of (profiles ?s2) CLAUDE_CLI_PROFILE_ID = Some (Token et)"
    if "map_of (profiles store) CLAUDE_CLI_PROFILE_ID = Some (Token et)"
       "tk_provider et = ''anthropic''" "tk_expires et = Some e" "now < e"
       "\<forall>cc. claudeCreds = Some cc \<longrightarrow>
                 (case tk_expires cc of None \<Rightarrow> 0 | Some x \<Rightarrow> x) \<le> now
                 \<or> (case tk_expires cc of None \<Rightarrow> 0 | Some x \<Rightarrow> x) \<le> e" for et e
  proof -
    have "\<not> fst (syncClaudeCli claudeCreds now store)"
      using that by (intro syncClaudeCli_keeps[where et = et]) (auto simp: orZero_def)
    then show ?thesis using that(1) by (simp add: claude_after syncClaudeCli_profiles)
  qed
  have b: "map_of (profiles ?s2) CODEX_CLI_PROFILE_ID = Some (OAuth eo)"
    if "map_of (profiles store) CODEX_CLI_PROFILE_ID = Some (OAuth eo)"
       "oa_provider eo = ''openai-codex''" "now < expires eo"
       "\<forall>xc. codexCreds = Some xc \<longrightarrow> expires xc \<le> expires eo" for eo
  proof -
    have "\<not> fst (syncCodexCli codexCreds now ?s1)"
      using that codex_before by (intro syncCodexCli_keeps[where eo = eo]) auto
    then show ?thesis using that(1) codex_before by (simp add: syncCodexCli_profiles)
  qed
  have t: "map_of (profiles ?s2) CLAUDE_CLI_PROFILE_ID = Some (Token cc)"
    if "map_of (profiles store) CLAUDE_CLI_PROFILE_ID = Some (Token et)"
       "(tk_expires et = None \<and> 0 \<le> now) \<or> (\<exists>e. tk_expires et = Some e \<and> e \<le> now)"
       "claudeCreds = Some cc" for et cc
  proof -
    have "map_of (profiles ?s1) CLAUDE_CLI_PROFILE_ID = Some (Token cc)"
      unfolding that(3) by (rule syncClaudeCli_takes[OF that(1,2)])
    with claude_after show ?thesis by simp
  qed
  have c: "map_of (profiles ?s2) CLAUDE_CLI_PROFILE_ID = map_of (profiles store) CLAUDE_CLI_PROFILE_ID
       \<or> (\<exists>cc. claudeCreds = Some cc \<and> map_of (profiles ?s2) CLAUDE_CLI_PROFILE_ID = Some (Token cc))"
    using syncClaudeCli_mutated[of claudeCreds now store]
    by (auto simp: claude_after syncClaudeCli_profiles)
  have d: "map_of (profiles ?s2) CODEX_CLI_PROFILE_ID = map_of (profiles store) CODEX_CLI_PROFILE_ID
       \<or> (\<exists>xc. codexCreds = Some xc \<and> map_of (profiles ?s2) CODEX_CLI_PROFILE_ID = Some (OAuth xc))"
    using syncCodexCli_mutated[of codexCreds now ?s1] codex_before
    by (auto simp: syncCodexCli_profiles)
  have e: "map_of (profiles ?s2) profileId = map_of (profiles store) profileId"
    if "profileId \<noteq> CLAUDE_CLI_PROFILE_ID" "profileId \<noteq> CODEX_CLI_PROFILE_ID" for profileId
    using that by (simp add: syncCodexCli_profiles syncClaudeCli_profiles)
  have f: "usageStats ?s2 = usageStats store" "lastGood ?s2 = lastGood store"
    by (simp_all add: syncCodexCli_rest syncClaudeCli_rest)
  show ?thesis
    unfolding sync_snd using a b t c d e f by blast
qed

text \<open>The store of the test, and a store whose Claude CLI token has no expiry, which an
  expired token of the tool replaces.\<close>

theorem syncExternalCliCredentials_keeps_fresh_witness:
  "map_of (profiles fresh_store) CLAUDE_CLI_PROFILE_ID
     = Some (Token \<lparr> tk_provider = ''anthropic'', token = ''store-access'',
                     tk_expires = Some 4600, tk_email = None \<rparr>)
   \<and> (1000::int) < 4600 \<and> tk_expires (cli_token 2800) = Some 2800 \<and> (2800::int) \<le> 4600
   \<and> map_of (profiles (snd (syncExternalCliCredentials (Some (cli_token 2800)) None 1000 fresh_store)))
        CLAUDE_CLI_PROFILE_ID
       = Some (Token \<lparr> tk_provider = ''anthropic'', token = ''store-access'',
                       tk_expires = Some 4600, tk_email = None \<rparr>)
   \<and> map_of (profiles unlimited_store) CLAUDE_CLI_PROFILE_ID
     = Some (Token \<lparr> tk_provider = ''anthropic'', token = ''store-access'',
                     tk_expires = None, tk_email = None \<rparr>)
   \<and> tk_expires (cli_token 800) = Some 800 \<and> (800::int) < 1000
   \<and> map_of (profiles (snd (syncExternalCliCredentials (Some (cli_token 800)) None 1000 unlimited_store)))
        CLAUDE_CLI_PROFILE_ID
       = Some (Token (cli_token 800))"
proof -
  let ?et = "\<lparr> tk_provider = ''anthropic'', token = ''store-access'',
               tk_expires = Some 4600, tk_email = None \<rparr>"
  let ?ut = "\<lparr> tk_provider = ''anthropic'', token = ''store-access'',
               tk_expires = None, tk_email = None \<rparr>"
  have h1: "map_of (profiles fresh_store) CLAUDE_CLI_PROFILE_ID = Some (Token ?et)"
    by (simp add: fresh_store_def CLAUDE_CLI_PROFILE_ID_def)
  have h2: "tk_provider ?et = ''anthropic''" and h3: "tk_expires ?et = Some 4600" "(1000::int) < 4600"
    by simp_all
  have h4: "\<forall>cc. Some (cli_token 2800) = Some cc \<longrightarrow>
              (case tk_expires cc of None \<Rightarrow> 0 | Some x \<Rightarrow> x) \<le> 1000
              \<or> (case tk_expires cc of None \<Rightarrow> 0 | Some x \<Rightarrow> x) \<le> 4600"
    by (simp add: cli_token_def)
  from syncExternalCliCredentials_keeps_fresh
         [of fresh_store 1000 "Some (cli_token 2800)" None, THEN conjunct1] h1 h2 h3 h4
  have r1: "map_of (profiles (snd (syncExternalCliCredentials (Some (cli_token 2800)) None 1000 fresh_store)))
          CLAUDE_CLI_PROFILE_ID = Some (Token ?et)"
    by blast
  have u1: "map_of (profiles unlimited_store) CLAUDE_CLI_PROFILE_ID = Some (Token ?ut)"
    by (simp add: unlimited_store_def CLAUDE_CLI_PROFILE_ID_def)
  have u2: "(tk_expires ?ut = None \<and> (0::int) \<le> 1000) \<or> (\<exists>e. tk_expires ?ut = Some e \<and> e \<le> 1000)"
    by simp
  from syncExternalCliCredentials_keeps_fresh
         [of unlimited_store 1000 "Some (cli_token 800)" None, THEN conjunct2, THEN conjunct2,
          THEN conjunct1] u1 u2
  have r2: "map_of (profiles (snd (syncExternalCliCredentials (Some (cli_token 800)) None 1000 unlimited_store)))
          CLAUDE_CLI_PROFILE_ID = Some (Token (cli_token 800))"
    by blast
  from h1 r1 u1 r2 show ?thesis by (simp add: cli_token_def)
qed

section \<open>Classifying failures (pi-embedded-helpers)\<close>

text \<open>\<^verbatim>\<open>isContextOverflowError\<close>; every call site passes a string, and the empty string is
  falsy.\<close>

definition isContextOverflowError :: "string \<Rightarrow> bool" where
  "isContextOverflowError errorMessage =
     (if errorMessage = [] then False
      else
        (let lower = toLowerCase errorMessage
         in str_includes lower ''request_too_large''
            \<or> str_includes lower ''request exceeds the maximum size''
            \<or> str_includes lower ''context length exceeded''
            \<or> str_includes lower ''maximum context length''
            \<or> (str_includes lower ''413'' \<and> str_includes lower ''too large'')))"

text \<open>The two fields of the engine's \<^verbatim>\<open>AssistantMessage\<close> that the classification reads.\<close>

record AssistantMessage =
  stopReason :: string
  errorMessage :: "string option"

text \<open>
  \<^verbatim>\<open>raw.match(/"type":"invalid_request_error".*?"message":"([^"]+)"/)\<close>: the first
  capture group of the leftmost match. \<open>messageAt\<close> matches
  \<^verbatim>\<open>"message":"([^"]+)"\<close> at the head of its argument; \<open>lazyGap\<close> lets the lazy
  \<^verbatim>\<open>.*?\<close> grow one character at a time, stopping at a line terminator;
  \<open>matchInvalidRequest\<close> tries every start position from the left.
\<close>

definition messageAt :: "string \<Rightarrow> string option" where
  "messageAt s =
     (if startsWith s (CHR 0x22 # ''message'' @ [CHR 0x22, CHR '':'', CHR 0x22])
      then
        (let rest = drop 11 s;
             g = takeWhile (\<lambda>c. c \<noteq> CHR 0x22) rest
         in if g \<noteq> [] \<and> dropWhile (\<lambda>c. c \<noteq> CHR 0x22) rest \<noteq> [] then Some g else None)
      else None)"

fun lazyGap :: "string \<Rightarrow> string option" where
  "lazyGap [] = messageAt []"
| "lazyGap (c # cs) =
     (case messageAt (c # cs) of
        Some g \<Rightarrow> Some g
      | None \<Rightarrow> if c = CHR 0x0A \<or> c = CHR 0x0D then None else lazyGap cs)"

fun matchInvalidRequest :: "string \<Rightarrow> string option" where
  "matchInvalidRequest [] = None"
| "matchInvalidRequest (c # cs) =
     (let lit = CHR 0x22 # ''type'' @ [CHR 0x22, CHR '':'', CHR 0x22] @ ''invalid_request_error''
                  @ [CHR 0x22]
      in if startsWith (c # cs) lit
         then (case lazyGap (drop (length lit) (c # cs)) of
                 Some g \<Rightarrow> Some g
               | None \<Rightarrow> matchInvalidRequest cs)
         else matchInvalidRequest cs)"

text \<open>The character U+2026 that marks a shortened message, as its three UTF-8 bytes.\<close>

definition ellipsis :: string where
  "ellipsis = [CHR 0xE2, CHR 0x80, CHR 0xA6]"

definition formatAssistantErrorText :: "AssistantMessage \<Rightarrow> string option" where
  "formatAssistantErrorText msg =
     (if stopReason msg \<noteq> ''error'' then None
      else
        (let raw = trim (case errorMessage msg of None \<Rightarrow> [] | Some m \<Rightarrow> m)
         in if raw = [] then Some ''LLM request failed with an unknown error.''
            else if isContextOverflowError raw
            then Some (''Context overflow: the conversation history is too large. ''
                       @ ''Use /new or /reset to start a fresh session.'')
            else
              (case matchInvalidRequest raw of
                 Some g \<Rightarrow> Some (''LLM request rejected: '' @ g)
               | None \<Rightarrow> Some (if length raw > 600 then take 600 raw @ ellipsis else raw))))"

text \<open>\<^verbatim>\<open>/rate[_ ]limit|too many requests|429/.test(value)\<close> or the quota phrase.\<close>

definition isRateLimitErrorMessage :: "string \<Rightarrow> bool" where
  "isRateLimitErrorMessage raw =
     (let v = toLowerCase raw
      in (str_includes v ''rate_limit'' \<or> str_includes v ''rate limit''
          \<or> str_includes v ''too many requests'' \<or> str_includes v ''429'')
         \<or> str_includes v ''exceeded your current quota'')"

definition isRateLimitAssistantError :: "AssistantMessage option \<Rightarrow> bool" where
  "isRateLimitAssistantError msg =
     (case msg of
        None \<Rightarrow> False
      | Some m \<Rightarrow>
          if stopReason m \<noteq> ''error'' then False
          else
            (let raw = toLowerCase (case errorMessage m of None \<Rightarrow> [] | Some e \<Rightarrow> e)
             in if raw = [] then False else isRateLimitErrorMessage raw))"

text \<open>\<^verbatim>\<open>/invalid[_ ]?api[_ ]?key/\<close>: each of the two separators is an underscore, a blank
  or nothing.\<close>

definition invalidApiKeyPattern :: "string \<Rightarrow> bool" where
  "invalidApiKeyPattern v =
     list_ex (\<lambda>sep1. list_ex (\<lambda>sep2. str_includes v (''invalid'' @ sep1 @ ''api'' @ sep2 @ ''key''))
                [''_'', '' '', []])
       [''_'', '' '', []]"

definition isAuthErrorMessage :: "string \<Rightarrow> bool" where
  "isAuthErrorMessage raw =
     (let v = toLowerCase raw
      in if v = [] then False
         else invalidApiKeyPattern v
              \<or> str_includes v ''incorrect api key''
              \<or> str_includes v ''invalid token''
              \<or> str_includes v ''authentication''
              \<or> str_includes v ''unauthorized''
              \<or> str_includes v ''forbidden''
              \<or> str_includes v ''access denied''
              \<or> testWord v ''401''
              \<or> testWord v ''403'')"

definition isAuthAssistantError :: "AssistantMessage option \<Rightarrow> bool" where
  "isAuthAssistantError msg =
     (case msg of
        None \<Rightarrow> False
      | Some m \<Rightarrow>
          if stopReason m \<noteq> ''error'' then False
          else isAuthErrorMessage (case errorMessage m of None \<Rightarrow> [] | Some e \<Rightarrow> e))"

subsection \<open>The supported values a provider lists in an error\<close>

text \<open>
  \<^verbatim>\<open>/supported values are:\s*([^\n.]+)/i\<close> and its variant without \<^verbatim>\<open>are\<close>. After the
  phrase, the greedy \<^verbatim>\<open>\s*\<close> first takes all the white space and then gives it back
  one character at a time until \<^verbatim>\<open>[^\n.]+\<close> finds a character to start with:
  \<open>backtrackWs k\<close> tries the group after \<open>k - 1\<close> characters of white space, then after
  fewer. \<open>supportedFragment\<close> tries every start position from the left; the phrase is
  compared without regard to case.
\<close>

definition notStop :: "char \<Rightarrow> bool" where
  "notStop c = (c \<noteq> CHR 0x0A \<and> c \<noteq> CHR ''.'')"

fun backtrackWs :: "nat \<Rightarrow> string \<Rightarrow> string option" where
  "backtrackWs 0 rest = None"
| "backtrackWs (Suc k) rest =
     (let g = takeWhile notStop (drop k rest)
      in if g \<noteq> [] then Some g else backtrackWs k rest)"

definition fragmentAt :: "string \<Rightarrow> string option" where
  "fragmentAt rest = backtrackWs (Suc (length (takeWhile isWhitespace rest))) rest"

fun supportedFragment :: "string \<Rightarrow> string \<Rightarrow> string option" where
  "supportedFragment phrase [] = None"
| "supportedFragment phrase (c # cs) =
     (if length phrase \<le> length (c # cs)
         \<and> toLowerCase (take (length phrase) (c # cs)) = phrase
      then (case fragmentAt (drop (length phrase) (c # cs)) of
              Some g \<Rightarrow> Some g
            | None \<Rightarrow> supportedFragment phrase cs)
      else supportedFragment phrase cs)"

text \<open>\<^verbatim>\<open>fragment.matchAll(/['"]([^'"]+)['"]/g)\<close>: the capture groups of the successive
  matches, each search resuming behind the closing quote of the match before.\<close>

definition isQuote :: "char \<Rightarrow> bool" where
  "isQuote c = (c = CHR 0x27 \<or> c = CHR 0x22)"

function quotedMatches :: "string \<Rightarrow> string list" where
  "quotedMatches [] = []"
| "quotedMatches (c # cs) =
     (if isQuote c \<and> takeWhile (\<lambda>d. \<not> isQuote d) cs \<noteq> []
         \<and> dropWhile (\<lambda>d. \<not> isQuote d) cs \<noteq> []
      then takeWhile (\<lambda>d. \<not> isQuote d) cs # quotedMatches (tl (dropWhile (\<lambda>d. \<not> isQuote d) cs))
      else quotedMatches cs)"
  by pat_completeness auto
termination
proof (relation "measure length")
  fix c :: char and cs :: string
  assume "isQuote c \<and> takeWhile (\<lambda>d. \<not> isQuote d) cs \<noteq> [] \<and> dropWhile (\<lambda>d. \<not> isQuote d) cs \<noteq> []"
  have "length (tl (dropWhile (\<lambda>d. \<not> isQuote d) cs)) \<le> length (dropWhile (\<lambda>d. \<not> isQuote d) cs)"
    by simp
  also have "\<dots> \<le> length cs" by (rule length_dropWhile_le)
  finally show "(tl (dropWhile (\<lambda>d. \<not> isQuote d) cs), c # cs) \<in> measure length" by simp
qed simp_all

text \<open>\<^verbatim>\<open>fragment.split(/,|\band\b/gi)\<close>. The flag says whether the character before the
  current position is a word character; \<open>piece\<close> is the piece collected so far.\<close>

function splitCommaAnd :: "bool \<Rightarrow> string \<Rightarrow> string \<Rightarrow> string list" where
  "splitCommaAnd prevWord piece [] = [piece]"
| "splitCommaAnd prevWord piece (c # cs) =
     (if c = CHR '','' then piece # splitCommaAnd False [] cs
      else if \<not> prevWord \<and> toLowerCase (take 3 (c # cs)) = ''and''
              \<and> (case drop 3 (c # cs) of [] \<Rightarrow> True | d # _ \<Rightarrow> \<not> isWordChar d)
      then piece # splitCommaAnd True [] (drop 3 (c # cs))
      else splitCommaAnd (isWordChar c) (piece @ [c]) cs)"
  by pat_completeness auto
termination
  by (relation "measure (\<lambda>(prevWord, piece, s). length s)") auto

text \<open>\<^verbatim>\<open>entry.replace(/^[^a-zA-Z]+|[^a-zA-Z]+$/g, "")\<close>.\<close>

definition stripNonLetters :: "string \<Rightarrow> string" where
  "stripNonLetters s =
     rev (dropWhile (\<lambda>c. \<not> isLetter c) (rev (dropWhile (\<lambda>c. \<not> isLetter c) s)))"

definition extractSupportedValues :: "string \<Rightarrow> string list" where
  "extractSupportedValues raw =
     (case (case supportedFragment ''supported values are:'' raw of
              Some g \<Rightarrow> Some g
            | None \<Rightarrow> supportedFragment ''supported values:'' raw) of
        None \<Rightarrow> []
      | Some fragment \<Rightarrow>
          (let quoted = map trim (quotedMatches fragment)
           in if length quoted > 0 then filter (\<lambda>entry. entry \<noteq> []) quoted
              else filter (\<lambda>entry. entry \<noteq> [])
                     (map (\<lambda>entry. trim (stripNonLetters entry)) (splitCommaAnd False [] fragment))))"

subsection \<open>Picking the next thinking level\<close>

text \<open>
  \<^verbatim>\<open>ThinkLevel\<close> is declared in \<^verbatim>\<open>auto-reply/thinking.js\<close>, which is not part of the
  sources at hand; its five values are the ones \<^verbatim>\<open>directive-handling.ts\<close> lists
  ("Valid levels: off, minimal, low, medium, high"). \<^verbatim>\<open>normalizeThinkLevel\<close> comes from
  the same module and is a parameter of the same name.
\<close>

datatype ThinkLevel = Off | Minimal | Low | Medium | High

text \<open>The loop over the supported values: the first one that normalises to a level not
  yet attempted.\<close>

fun firstUnattempted ::
  "(string \<Rightarrow> ThinkLevel option) \<Rightarrow> ThinkLevel set \<Rightarrow> string list \<Rightarrow> ThinkLevel option" where
  "firstUnattempted normalizeThinkLevel attempted [] = None"
| "firstUnattempted normalizeThinkLevel attempted (entry # rest) =
     (case normalizeThinkLevel entry of
        None \<Rightarrow> firstUnattempted normalizeThinkLevel attempted rest
      | Some normalized \<Rightarrow>
          if normalized \<in> attempted then firstUnattempted normalizeThinkLevel attempted rest
          else Some normalized)"

definition pickFallbackThinkingLevel ::
  "(string \<Rightarrow> ThinkLevel option) \<Rightarrow> string option \<Rightarrow> ThinkLevel set \<Rightarrow> ThinkLevel option" where
  "pickFallbackThinkingLevel normalizeThinkLevel message attempted =
     (let raw = (case message of None \<Rightarrow> [] | Some m \<Rightarrow> trim m)
      in if raw = [] then None
         else
           (let supported = extractSupportedValues raw
            in if length supported = 0 then None
               else firstUnattempted normalizeThinkLevel attempted supported))"

section \<open>Usage statistics written by a run (auth-profiles)\<close>

text \<open>
  \<^verbatim>\<open>markAuthProfileCooldown\<close>, \<^verbatim>\<open>markAuthProfileUsed\<close> and \<^verbatim>\<open>markAuthProfileGood\<close>
  take the store's file lock, re-read the store, apply their update and write it back;
  when the lock cannot be taken they apply the same update to the caller's copy. The
  model applies the update to the run's store: no other process writes the file during
  the run.
\<close>

definition usageOf :: "AuthProfileStore \<Rightarrow> string \<Rightarrow> ProfileUsageStats" where
  "usageOf store profileId =
     (case map_of (usageStats store) profileId of
        None \<Rightarrow> \<lparr> lastUsed = None, cooldownUntil = None, errorCount = None \<rparr>
      | Some stats \<Rightarrow> stats)"

definition markAuthProfileCooldown :: "AuthProfileStore \<Rightarrow> string \<Rightarrow> int \<Rightarrow> AuthProfileStore" where
  "markAuthProfileCooldown store profileId now =
     (if map_of (profiles store) profileId = None then store
      else
        (let existing = usageOf store profileId;
             newCount = orZero (errorCount existing) + 1;
             backoffMs = calculateAuthProfileCooldownMs newCount
         in store\<lparr>usageStats :=
                    AList.update profileId
                      (existing\<lparr>errorCount := Some newCount, cooldownUntil := Some (now + backoffMs)\<rparr>)
                      (usageStats store)\<rparr>))"

definition markAuthProfileUsed :: "AuthProfileStore \<Rightarrow> string \<Rightarrow> int \<Rightarrow> AuthProfileStore" where
  "markAuthProfileUsed store profileId now =
     (if map_of (profiles store) profileId = None then store
      else store\<lparr>usageStats :=
                   AList.update profileId
                     ((usageOf store profileId)
                        \<lparr>lastUsed := Some now, errorCount := Some 0, cooldownUntil := None\<rparr>)
                     (usageStats store)\<rparr>)"

definition markAuthProfileGood :: "AuthProfileStore \<Rightarrow> string \<Rightarrow> string \<Rightarrow> AuthProfileStore" where
  "markAuthProfileGood store provider profileId =
     (case map_of (profiles store) profileId of
        None \<Rightarrow> store
      | Some profile \<Rightarrow>
          if cred_provider profile \<noteq> provider then store
          else store\<lparr>lastGood := AList.update provider profileId (lastGood store)\<rparr>)"

section \<open>The agent-run orchestrator (pi-embedded-runner)\<close>

text \<open>
  \<^verbatim>\<open>runEmbeddedPiAgent\<close>, from the point where the model has been resolved: the
  resolution of the candidate profiles, the first key, and the retry loop. What the run
  takes from outside is a field of \<open>run_env\<close>:
  \<^item> the parameters \<^verbatim>\<open>config\<close>, \<^verbatim>\<open>provider\<close> (already defaulted and trimmed),
    \<^verbatim>\<open>authProfileId\<close> and \<^verbatim>\<open>thinkLevel\<close>;
  \<^item> the store \<^verbatim>\<open>ensureAuthProfileStore\<close> returned, and the clock readings of
    \<^verbatim>\<open>resolveAuthProfileOrder\<close>;
  \<^item> \<^verbatim>\<open>getApiKeyForModel\<close> (\<^verbatim>\<open>model-auth.js\<close>), \<^verbatim>\<open>normalizeProviderId\<close> (what it
    returns for a string, and what it does for \<^verbatim>\<open>undefined\<close>) and
    \<^verbatim>\<open>normalizeThinkLevel\<close>, none of which is in the sources at hand;
  \<^item> the session engine: \<open>engine n\<close> is what the \<open>n\<close>-th attempt of the run ends with.
  Lane queueing, the sandbox, skills, the system prompt and streaming callbacks do not
  bear on which profile and level are attempted and are not modelled.
\<close>

record ApiKeyInfo =
  info_apiKey :: string
  info_profileId :: "string option"

record ReplyItem =
  item_text :: string
  item_media :: "string list"
  item_isError :: bool

record ReplyPayload =
  payload_text :: "string option"
  payload_mediaUrls :: "string list"
  payload_mediaUrl :: "string option"
  payload_isError :: bool

record EmbeddedPiRunResult =
  payloads :: "ReplyPayload list option"
  meta_aborted :: "bool option"

text \<open>
  What one attempt ends with, once the session is disposed: the text of the error that
  \<^verbatim>\<open>session.prompt\<close> (or an aborted wait for compaction) threw, if any, as
  \<^verbatim>\<open>describeUnknownError\<close> renders it; the two flags \<^verbatim>\<open>aborted\<close> and \<^verbatim>\<open>timedOut\<close>;
  the last assistant message of the session; the reply items built from the tool
  summaries and the assistant texts; and the clock. An attempt can also throw before
  it gets that far (the session cannot be opened, a wait fails with another error);
  the loop does not catch that.
\<close>

record AttemptOutcome =
  promptError :: "string option"
  aborted :: bool
  timedOut :: bool
  lastAssistant :: "AssistantMessage option"
  otherItems :: "ReplyItem list"
  clock :: int

datatype Attempt = Threw error | Completed AttemptOutcome

record run_env =
  config :: ClawdbotConfig
  run_provider :: string
  authProfileId :: "string option"
  thinkLevelParam :: "ThinkLevel option"
  ensuredStore :: AuthProfileStore
  orderClock :: "nat \<Rightarrow> int"
  getApiKeyForModel :: "string option \<Rightarrow> AuthProfileStore \<Rightarrow> error + ApiKeyInfo"
  normalizeProviderId :: "string \<Rightarrow> string"
  normalizeUndefined :: "error + string"
  normalizeThinkLevel :: "string \<Rightarrow> ThinkLevel option"
  engine :: "nat \<Rightarrow> Attempt"

text \<open>The constants of the closure: \<^verbatim>\<open>explicitProfileId\<close>, \<^verbatim>\<open>profileCandidates\<close> (an
  absent candidate is \<open>None\<close>) and \<^verbatim>\<open>initialThinkLevel\<close>.\<close>

record run_consts =
  explicitProfileId :: "string option"
  profileCandidates :: "string option list"
  initialThinkLevel :: ThinkLevel

text \<open>What the run did, in program order.\<close>

datatype event =
    KeyResolved "string option"
  | KeyFailed "string option"
  | Attempted nat "string option" ThinkLevel "ThinkLevel set"
  | CooldownMarked string
  | MarkedGood string
  | MarkedUsed string

text \<open>The variables of the closure that the loop changes, the number of attempts made
  so far, and the trace.\<close>

record run_state =
  profileIndex :: nat
  thinkLevel :: ThinkLevel
  attemptedThinking :: "ThinkLevel set"
  apiKeyInfo :: "ApiKeyInfo option"
  lastProfileId :: "string option"
  authStore :: AuthProfileStore
  attempts :: nat
  trace :: "event list"

text \<open>A value is truthy when it is a non-empty string.\<close>

definition truthy :: "string option \<Rightarrow> bool" where
  "truthy s = (case s of None \<Rightarrow> False | Some v \<Rightarrow> v \<noteq> [])"

text \<open>\<^verbatim>\<open>applyApiKeyInfo\<close>: the state after the call, and the error if the key could not be
  resolved (the variables are assigned only on success).\<close>

definition applyApiKeyInfo :: "run_env \<Rightarrow> run_state \<Rightarrow> string option \<Rightarrow> run_state \<times> error option" where
  "applyApiKeyInfo env st candidate =
     (case getApiKeyForModel env candidate (authStore st) of
        Inl err \<Rightarrow> (st\<lparr>trace := trace st @ [KeyFailed candidate]\<rparr>, Some err)
      | Inr info \<Rightarrow>
          (st\<lparr>apiKeyInfo := Some info, lastProfileId := info_profileId info,
              trace := trace st @ [KeyResolved candidate]\<rparr>, None))"

text \<open>The loop of \<^verbatim>\<open>advanceAuthProfile\<close>, from \<open>nextIndex\<close> on: the state, and \<open>Inr True\<close>
  when a later candidate's key was resolved, \<open>Inr False\<close> when none was, \<open>Inl err\<close> when the
  error is rethrown.\<close>

function advanceFrom ::
  "run_env \<Rightarrow> run_consts \<Rightarrow> run_state \<Rightarrow> nat \<Rightarrow> run_state \<times> (error + bool)" where
  "advanceFrom env k st nextIndex =
     (if nextIndex < length (profileCandidates k)
      then
        (let candidate = profileCandidates k ! nextIndex
         in case applyApiKeyInfo env st candidate of
              (st1, None) \<Rightarrow>
                (st1\<lparr>profileIndex := nextIndex, thinkLevel := initialThinkLevel k,
                     attemptedThinking := {}\<rparr>, Inr True)
            | (st1, Some err) \<Rightarrow>
                if truthy candidate \<and> candidate = explicitProfileId k then (st1, Inl err)
                else advanceFrom env k st1 (nextIndex + 1))
      else (st, Inr False))"
  by pat_completeness auto
termination
  by (relation "measure (\<lambda>(env, k, st, nextIndex). length (profileCandidates k) - nextIndex)") auto

declare advanceFrom.simps [simp del]

definition advanceAuthProfile :: "run_env \<Rightarrow> run_consts \<Rightarrow> run_state \<Rightarrow> run_state \<times> (error + bool)" where
  "advanceAuthProfile env k st = advanceFrom env k st (profileIndex st + 1)"

text \<open>The payloads of a result: each reply item with its text trimmed, the items that
  carry neither text nor media left out.\<close>

definition toPayload :: "ReplyItem \<Rightarrow> ReplyPayload" where
  "toPayload item =
     \<lparr> payload_text = (if trim (item_text item) \<noteq> [] then Some (trim (item_text item)) else None),
       payload_mediaUrls = item_media item,
       payload_mediaUrl = (case item_media item of [] \<Rightarrow> None | m # _ \<Rightarrow> Some m),
       payload_isError = item_isError item \<rparr>"

definition keepPayload :: "ReplyPayload \<Rightarrow> bool" where
  "keepPayload p =
     (payload_text p \<noteq> None \<or> truthy (payload_mediaUrl p) \<or> length (payload_mediaUrls p) > 0)"

text \<open>The result returned at once for a thrown context overflow.\<close>

definition contextOverflowResult :: EmbeddedPiRunResult where
  "contextOverflowResult =
     \<lparr> payloads =
         Some [\<lparr> payload_text =
                    Some (''Context overflow: the conversation history is too large for the model. ''
                          @ ''Use /new or /reset to start a fresh session, or try a model with a ''
                          @ ''larger context window.''),
                  payload_mediaUrls = [], payload_mediaUrl = None, payload_isError = True \<rparr>],
       meta_aborted = None \<rparr>"

datatype step = Continue run_state | Finished run_state "error + EmbeddedPiRunResult"

text \<open>The branch \<^verbatim>\<open>if (promptError && !aborted)\<close>.\<close>

definition promptErrorPath :: "run_env \<Rightarrow> run_consts \<Rightarrow> run_state \<Rightarrow> string \<Rightarrow> step" where
  "promptErrorPath env k st errorText =
     (if isContextOverflowError errorText then Finished st (Inr contextOverflowResult)
      else
        (case (if isAuthErrorMessage errorText \<or> isRateLimitErrorMessage errorText
               then advanceAuthProfile env k st else (st, Inr False)) of
           (st1, Inl err) \<Rightarrow> Finished st1 (Inl err)
         | (st1, Inr True) \<Rightarrow> Continue st1
         | (st1, Inr False) \<Rightarrow>
             (case pickFallbackThinkingLevel (normalizeThinkLevel env) (Some errorText)
                     (attemptedThinking st1) of
                Some fallbackThinking \<Rightarrow> Continue (st1\<lparr>thinkLevel := fallbackThinking\<rparr>)
              | None \<Rightarrow> Finished st1 (Inl (Error errorText)))))"

text \<open>The end of an iteration that neither retries nor throws: the payloads are built,
  the profile is marked good and used, and the result is returned.\<close>

definition finish :: "run_env \<Rightarrow> run_state \<Rightarrow> AttemptOutcome \<Rightarrow> step" where
  "finish env st out =
     (let errorText = (case lastAssistant out of None \<Rightarrow> None | Some m \<Rightarrow> formatAssistantErrorText m);
          replyItems =
            (if truthy errorText
             then [\<lparr> item_text = the errorText, item_media = [], item_isError = True \<rparr>]
             else []) @ otherItems out;
          ps = filter keepPayload (map toPayload replyItems);
          st1 = (if truthy (lastProfileId st)
                 then st\<lparr>authStore :=
                            markAuthProfileUsed
                              (markAuthProfileGood (authStore st) (run_provider env)
                                 (the (lastProfileId st)))
                              (the (lastProfileId st)) (clock out),
                          trace := trace st @ [MarkedGood (the (lastProfileId st)),
                                                MarkedUsed (the (lastProfileId st))]\<rparr>
                 else st)
      in Finished st1
           (Inr \<lparr> payloads = (if length ps > 0 then Some ps else None),
                  meta_aborted = Some (aborted out) \<rparr>))"

text \<open>\<^verbatim>\<open>a || b\<close> on strings that may be absent.\<close>

definition orElse :: "string option \<Rightarrow> string option \<Rightarrow> string option" where
  "orElse a b = (if truthy a then a else b)"

text \<open>The rest of the iteration, when no prompt error is to be handled, in four parts:
  the test \<^verbatim>\<open>shouldRotate\<close>; the cooldown of the current profile
  (\<^verbatim>\<open>if (lastProfileId) await markAuthProfileCooldown(...)\<close>); the message of the error
  thrown when no candidate is left and fallback models are configured; and the branch
  \<^verbatim>\<open>if (shouldRotate)\<close> itself, which falls through to the end of the iteration when
  it neither continues nor throws.\<close>

definition shouldRotate :: "AttemptOutcome \<Rightarrow> bool" where
  "shouldRotate out =
     (let authFailure = isAuthAssistantError (lastAssistant out);
          rateLimitFailure = isRateLimitAssistantError (lastAssistant out)
      in (\<not> aborted out \<and> (authFailure \<or> rateLimitFailure)) \<or> timedOut out)"

definition markCurrentCooldown :: "run_state \<Rightarrow> AttemptOutcome \<Rightarrow> run_state" where
  "markCurrentCooldown st out =
     (if truthy (lastProfileId st)
      then st\<lparr>authStore :=
                 markAuthProfileCooldown (authStore st) (the (lastProfileId st)) (clock out),
               trace := trace st @ [CooldownMarked (the (lastProfileId st))]\<rparr>
      else st)"

definition rotationFailureMessage :: "AttemptOutcome \<Rightarrow> string" where
  "rotationFailureMessage out =
     the (orElse
            (orElse
               (case lastAssistant out of
                  None \<Rightarrow> None
                | Some m \<Rightarrow> map_option trim (errorMessage m))
               (case lastAssistant out of
                  None \<Rightarrow> Some []
                | Some m \<Rightarrow> formatAssistantErrorText m))
            (Some (if timedOut out then ''LLM request timed out.''
                   else if isRateLimitAssistantError (lastAssistant out)
                   then ''LLM request rate limited.''
                   else ''LLM request unauthorized.'')))"

definition rotatePath :: "run_env \<Rightarrow> run_consts \<Rightarrow> run_state \<Rightarrow> AttemptOutcome \<Rightarrow> step" where
  "rotatePath env k st out =
     (let fallbackConfigured = (length (agent_model_fallbacks (config env)) > 0)
      in case advanceAuthProfile env k (markCurrentCooldown st out) of
           (st2, Inl err) \<Rightarrow> Finished st2 (Inl err)
         | (st2, Inr True) \<Rightarrow> Continue st2
         | (st2, Inr False) \<Rightarrow>
             if fallbackConfigured then Finished st2 (Inl (Error (rotationFailureMessage out)))
             else finish env st2 out)"

definition assistantPath :: "run_env \<Rightarrow> run_consts \<Rightarrow> run_state \<Rightarrow> AttemptOutcome \<Rightarrow> step" where
  "assistantPath env k st out =
     (let fallbackThinking =
            pickFallbackThinkingLevel (normalizeThinkLevel env)
              (case lastAssistant out of None \<Rightarrow> None | Some m \<Rightarrow> errorMessage m)
              (attemptedThinking st)
      in if fallbackThinking \<noteq> None \<and> \<not> aborted out
         then Continue (st\<lparr>thinkLevel := the fallbackThinking\<rparr>)
         else if shouldRotate out then rotatePath env k st out
         else finish env st out)"

text \<open>One turn of \<^verbatim>\<open>while (true)\<close>: the level is added to the attempted set, the
  attempt is made, and its outcome is handled.\<close>

definition iteration :: "run_env \<Rightarrow> run_consts \<Rightarrow> run_state \<Rightarrow> step" where
  "iteration env k st =
     (let st1 = st\<lparr>attemptedThinking := insert (thinkLevel st) (attemptedThinking st),
                   attempts := attempts st + 1,
                   trace := trace st @ [Attempted (profileIndex st) (lastProfileId st) (thinkLevel st)
                                          (insert (thinkLevel st) (attemptedThinking st))]\<rparr>
      in case engine env (attempts st) of
           Threw err \<Rightarrow> Finished st1 (Inl err)
         | Completed out \<Rightarrow>
             (case promptError out of
                Some errorText \<Rightarrow>
                  if \<not> aborted out then promptErrorPath env k st1 errorText
                  else assistantPath env k st1 out
              | None \<Rightarrow> assistantPath env k st1 out))"

section \<open>Properties of the retry loop\<close>

text \<open>The attempts of a trace: the candidate index, the level and the attempted set of
  each.\<close>

fun attemptsOf :: "event list \<Rightarrow> (nat \<times> ThinkLevel \<times> ThinkLevel set) list" where
  "attemptsOf [] = []"
| "attemptsOf (Attempted i p l s # es) = (i, l, s) # attemptsOf es"
| "attemptsOf (_ # es) = attemptsOf es"

text \<open>Relations between the state before and after a part of an iteration.
  \<open>sameAttempt\<close>: no attempt was made and the candidate, the level and the attempted set
  are as before. \<open>retried\<close>: the same candidate is to be retried with a level that has
  not been attempted on it. \<open>rotated\<close>: a later candidate has been taken up, with the
  initial level and an empty attempted set.\<close>

definition sameAttempt :: "run_state \<Rightarrow> run_state \<Rightarrow> bool" where
  "sameAttempt st st' =
     (profileIndex st' = profileIndex st \<and> thinkLevel st' = thinkLevel st
      \<and> attemptedThinking st' = attemptedThinking st \<and> attempts st' = attempts st
      \<and> attemptsOf (trace st') = attemptsOf (trace st))"

definition retried :: "run_state \<Rightarrow> run_state \<Rightarrow> bool" where
  "retried st st' =
     (profileIndex st' = profileIndex st \<and> thinkLevel st' \<notin> attemptedThinking st
      \<and> attemptedThinking st' = attemptedThinking st \<and> attempts st' = attempts st
      \<and> attemptsOf (trace st') = attemptsOf (trace st))"

definition rotated :: "run_consts \<Rightarrow> run_state \<Rightarrow> run_state \<Rightarrow> bool" where
  "rotated k st st' =
     (profileIndex st < profileIndex st' \<and> profileIndex st' < length (profileCandidates k)
      \<and> thinkLevel st' = initialThinkLevel k \<and> attemptedThinking st' = {}
      \<and> attempts st' = attempts st \<and> attemptsOf (trace st') = attemptsOf (trace st))"

lemma attemptsOf_append: "attemptsOf (xs @ ys) = attemptsOf xs @ attemptsOf ys"
  by (induction xs rule: attemptsOf.induct) auto

lemma firstUnattempted_fresh:
  "firstUnattempted n att xs = Some l \<Longrightarrow> l \<notin> att"
  by (induction xs) (auto split: option.splits if_splits)

lemma pickFallbackThinkingLevel_fresh:
  "pickFallbackThinkingLevel n msg att = Some l \<Longrightarrow> l \<notin> att"
  by (auto simp: pickFallbackThinkingLevel_def Let_def firstUnattempted_fresh split: if_splits)

lemma sameAttempt_refl: "sameAttempt st st"
  by (simp add: sameAttempt_def)

lemma sameAttempt_trans: "sameAttempt a b \<Longrightarrow> sameAttempt b c \<Longrightarrow> sameAttempt a c"
  by (simp add: sameAttempt_def)

lemma sameAttempt_rotated: "sameAttempt a b \<Longrightarrow> rotated k b c \<Longrightarrow> rotated k a c"
  by (simp add: sameAttempt_def rotated_def)

lemma sameAttempt_retried: "sameAttempt a b \<Longrightarrow> retried b c \<Longrightarrow> retried a c"
  by (simp add: sameAttempt_def retried_def)

lemma applyApiKeyInfo_same:
  "applyApiKeyInfo env st c = (st', r) \<Longrightarrow> sameAttempt st st'"
  by (auto simp: applyApiKeyInfo_def sameAttempt_def attemptsOf_append split: sum.splits)

lemma applyApiKeyInfo_store:
  "applyApiKeyInfo env st c = (st', r) \<Longrightarrow> authStore st' = authStore st"
  by (auto simp: applyApiKeyInfo_def split: sum.splits)

lemma applyApiKeyInfo_failed:
  "applyApiKeyInfo env st c = (st', Some err) \<Longrightarrow>
     lastProfileId st' = lastProfileId st \<and> apiKeyInfo st' = apiKeyInfo st"
  by (auto simp: applyApiKeyInfo_def split: sum.splits)

text \<open>The result of the loop of \<^verbatim>\<open>advanceAuthProfile\<close>, in terms of these relations.\<close>

definition advanced :: "run_consts \<Rightarrow> nat \<Rightarrow> run_state \<Rightarrow> run_state \<times> (error + bool) \<Rightarrow> bool" where
  "advanced k n st res =
     (case res of
        (st', Inr True) \<Rightarrow>
          sameAttempt st (st'\<lparr>profileIndex := profileIndex st, thinkLevel := thinkLevel st,
                               attemptedThinking := attemptedThinking st\<rparr>)
          \<and> n \<le> profileIndex st' \<and> profileIndex st' < length (profileCandidates k)
          \<and> thinkLevel st' = initialThinkLevel k \<and> attemptedThinking st' = {}
          \<and> authStore st' = authStore st
      | (st', _) \<Rightarrow>
          sameAttempt st st' \<and> lastProfileId st' = lastProfileId st \<and> authStore st' = authStore st)"

lemma advanced_step:
  assumes "sameAttempt st st1" "authStore st1 = authStore st" "lastProfileId st1 = lastProfileId st"
      and "advanced k (Suc n) st1 res"
  shows "advanced k n st res"
  using assms by (auto simp: advanced_def sameAttempt_def split: prod.splits sum.splits bool.splits)

lemma advanceFrom_advanced: "advanced k n st (advanceFrom env k st n)"
proof (induction env k st n rule: advanceFrom.induct)
  case (1 env k st nextIndex)
  show ?case
  proof (cases "nextIndex < length (profileCandidates k)")
    case False
    then have "advanceFrom env k st nextIndex = (st, Inr False)"
      by (simp add: advanceFrom.simps[of env k st nextIndex])
    then show ?thesis by (simp add: advanced_def sameAttempt_refl)
  next
    case True
    obtain st1 e where a: "applyApiKeyInfo env st (profileCandidates k ! nextIndex) = (st1, e)"
      by (cases "applyApiKeyInfo env st (profileCandidates k ! nextIndex)")
    define pinned where
      "pinned = (truthy (profileCandidates k ! nextIndex)
                 \<and> profileCandidates k ! nextIndex = explicitProfileId k)"
    have unfolded: "advanceFrom env k st nextIndex =
        (case e of
           None \<Rightarrow> (st1\<lparr>profileIndex := nextIndex, thinkLevel := initialThinkLevel k,
                        attemptedThinking := {}\<rparr>, Inr True)
         | Some err \<Rightarrow> if pinned then (st1, Inl err) else advanceFrom env k st1 (nextIndex + 1))"
      unfolding pinned_def using True a
      by (simp add: advanceFrom.simps[of env k st nextIndex] Let_def)
    note same = applyApiKeyInfo_same[OF a] and store = applyApiKeyInfo_store[OF a]
    show ?thesis
    proof (cases e)
      case None
      have "sameAttempt st (st1\<lparr>profileIndex := profileIndex st, thinkLevel := thinkLevel st,
                               attemptedThinking := attemptedThinking st\<rparr>)"
        using same by (simp add: sameAttempt_def)
      then show ?thesis using True store by (simp add: unfolded None advanced_def)
    next
      case (Some err)
      note failed = applyApiKeyInfo_failed[OF a[unfolded Some]]
      show ?thesis
      proof (cases pinned)
        case True
        then show ?thesis using same store failed by (simp add: unfolded Some advanced_def)
      next
        case False
        then have np: "\<not> (truthy (profileCandidates k ! nextIndex)
                 \<and> profileCandidates k ! nextIndex = explicitProfileId k)"
          by (simp add: pinned_def)
        have ih: "advanced k (Suc nextIndex) st1 (advanceFrom env k st1 (nextIndex + 1))"
          using "1.IH"[OF True refl a[symmetric] _ np] Some by simp
        have "advanced k nextIndex st (advanceFrom env k st1 (nextIndex + 1))"
          by (rule advanced_step[OF same store conjunct1[OF failed] ih])
        then show ?thesis by (simp add: unfolded Some False)
      qed
    qed
  qed
qed

lemma advanceAuthProfile_cases:
  assumes "advanceAuthProfile env k st = (st', r)"
  shows "(r = Inr True \<longrightarrow> rotated k st st') \<and> (r \<noteq> Inr True \<longrightarrow> sameAttempt st st')
         \<and> (r \<noteq> Inr True \<longrightarrow> lastProfileId st' = lastProfileId st)
         \<and> authStore st' = authStore st"
proof -
  have "advanced k (profileIndex st + 1) st (st', r)"
    using advanceFrom_advanced[of k "profileIndex st + 1" st env] assms
    by (simp add: advanceAuthProfile_def)
  then show ?thesis
    by (cases r; cases "projr r")
       (auto simp: advanced_def rotated_def sameAttempt_def split: sum.splits bool.splits)
qed

text \<open>What a part of an iteration may do after the attempt: continue by retrying or by
  rotating, or finish without another attempt.\<close>

definition stepFrom :: "run_consts \<Rightarrow> run_state \<Rightarrow> step \<Rightarrow> bool" where
  "stepFrom k st s =
     (case s of
        Continue st' \<Rightarrow> retried st st' \<or> rotated k st st'
      | Finished st' r \<Rightarrow> attempts st' = attempts st \<and> attemptsOf (trace st') = attemptsOf (trace st))"

lemma stepFrom_Finished:
  "sameAttempt st st' \<Longrightarrow> stepFrom k st (Finished st' r)"
  by (simp add: stepFrom_def sameAttempt_def)

lemma stepFrom_fallback:
  assumes "sameAttempt st st1"
      and "pickFallbackThinkingLevel n msg (attemptedThinking st1) = Some l"
  shows "stepFrom k st (Continue (st1\<lparr>thinkLevel := l\<rparr>))"
proof -
  have "l \<notin> attemptedThinking st1" using assms(2) by (rule pickFallbackThinkingLevel_fresh)
  with assms(1) have "retried st (st1\<lparr>thinkLevel := l\<rparr>)"
    by (simp add: retried_def sameAttempt_def)
  then show ?thesis by (simp add: stepFrom_def)
qed

lemma stepFrom_same:
  "sameAttempt st st1 \<Longrightarrow> stepFrom k st1 s \<Longrightarrow> stepFrom k st s"
  by (cases s) (auto simp: stepFrom_def sameAttempt_def retried_def rotated_def)

lemma promptErrorPath_step: "stepFrom k st (promptErrorPath env k st errorText)"
proof (cases "isContextOverflowError errorText")
  case True
  then show ?thesis by (simp add: promptErrorPath_def stepFrom_Finished sameAttempt_refl)
next
  case False
  define adv where "adv = (if isAuthErrorMessage errorText \<or> isRateLimitErrorMessage errorText
               then advanceAuthProfile env k st else (st, Inr False))"
  obtain st1 r where adv: "adv = (st1, r)" by (cases adv)
  have facts: "(r = Inr True \<longrightarrow> rotated k st st1) \<and> (r \<noteq> Inr True \<longrightarrow> sameAttempt st st1)"
  proof (cases "isAuthErrorMessage errorText \<or> isRateLimitErrorMessage errorText")
    case True
    with adv have "advanceAuthProfile env k st = (st1, r)" by (simp add: adv_def)
    from advanceAuthProfile_cases[OF this] show ?thesis by simp
  next
    case False
    with adv have "st1 = st" "r = Inr False" by (simp_all add: adv_def)
    then show ?thesis by (simp add: sameAttempt_refl)
  qed
  have unfolded: "promptErrorPath env k st errorText =
      (case r of
         Inl err \<Rightarrow> Finished st1 (Inl err)
       | Inr True \<Rightarrow> Continue st1
       | Inr False \<Rightarrow>
           (case pickFallbackThinkingLevel (normalizeThinkLevel env) (Some errorText)
                   (attemptedThinking st1) of
              Some fallbackThinking \<Rightarrow> Continue (st1\<lparr>thinkLevel := fallbackThinking\<rparr>)
            | None \<Rightarrow> Finished st1 (Inl (Error errorText))))"
    using False adv unfolding adv_def
    by (simp add: promptErrorPath_def split: sum.splits bool.splits)
  show ?thesis
  proof (cases r)
    case (Inl err)
    with facts show ?thesis by (simp add: unfolded stepFrom_Finished)
  next
    case (Inr b)
    show ?thesis
    proof (cases b)
      case True
      with Inr facts show ?thesis by (simp add: unfolded stepFrom_def)
    next
      case False
      with Inr facts have same: "sameAttempt st st1" by simp
      show ?thesis
      proof (cases "pickFallbackThinkingLevel (normalizeThinkLevel env) (Some errorText)
                   (attemptedThinking st1)")
        case None
        with Inr False same show ?thesis by (simp add: unfolded stepFrom_Finished)
      next
        case (Some l)
        from stepFrom_fallback[OF same Some] Inr False Some show ?thesis by (simp add: unfolded)
      qed
    qed
  qed
qed

lemma finish_step: "sameAttempt st0 st \<Longrightarrow> stepFrom k st0 (finish env st out)"
  by (auto simp: finish_def Let_def stepFrom_def sameAttempt_def attemptsOf_append)

lemma markCurrentCooldown_same: "sameAttempt st (markCurrentCooldown st out)"
  by (simp add: markCurrentCooldown_def sameAttempt_def attemptsOf_append)

lemma rotatePath_step: "stepFrom k st (rotatePath env k st out)"
proof -
  let ?st1 = "markCurrentCooldown st out"
  have s1: "sameAttempt st ?st1" by (rule markCurrentCooldown_same)
  obtain st2 r where adv: "advanceAuthProfile env k ?st1 = (st2, r)"
    by (cases "advanceAuthProfile env k ?st1")
  note c = advanceAuthProfile_cases[OF adv]
  show ?thesis
  proof (cases r)
    case (Inl err)
    with c have "sameAttempt ?st1 st2" by simp
    with s1 have "sameAttempt st st2" by (rule sameAttempt_trans)
    moreover have "rotatePath env k st out = Finished st2 (Inl err)"
      by (simp add: rotatePath_def adv Inl)
    ultimately show ?thesis by (simp add: stepFrom_Finished)
  next
    case (Inr b)
    show ?thesis
    proof (cases b)
      case True
      with Inr c have "rotated k ?st1 st2" by simp
      with s1 have "rotated k st st2" by (rule sameAttempt_rotated)
      moreover have "rotatePath env k st out = Continue st2"
        by (simp add: rotatePath_def adv Inr True)
      ultimately show ?thesis by (simp add: stepFrom_def)
    next
      case False
      with Inr c have "sameAttempt ?st1 st2" by simp
      with s1 have same: "sameAttempt st st2" by (rule sameAttempt_trans)
      have "rotatePath env k st out =
              (if length (agent_model_fallbacks (config env)) > 0
               then Finished st2 (Inl (Error (rotationFailureMessage out)))
               else finish env st2 out)"
        by (simp add: rotatePath_def adv Inr False)
      with same show ?thesis by (simp add: stepFrom_Finished finish_step)
    qed
  qed
qed

lemma assistantPath_step: "stepFrom k st (assistantPath env k st out)"
proof -
  define fb where "fb = pickFallbackThinkingLevel (normalizeThinkLevel env)
              (case lastAssistant out of None \<Rightarrow> None | Some m \<Rightarrow> errorMessage m)
              (attemptedThinking st)"
  have unfolded: "assistantPath env k st out =
      (if fb \<noteq> None \<and> \<not> aborted out then Continue (st\<lparr>thinkLevel := the fb\<rparr>)
       else if shouldRotate out then rotatePath env k st out
       else finish env st out)"
    by (simp only: assistantPath_def Let_def fb_def)
  show ?thesis
  proof (cases "fb \<noteq> None \<and> \<not> aborted out")
    case True
    then obtain l where l: "fb = Some l" by auto
    have "stepFrom k st (Continue (st\<lparr>thinkLevel := l\<rparr>))"
      by (rule stepFrom_fallback[OF sameAttempt_refl l[unfolded fb_def]])
    moreover have "assistantPath env k st out = Continue (st\<lparr>thinkLevel := the fb\<rparr>)"
      by (simp only: unfolded if_P[OF True])
    ultimately show ?thesis by (simp add: l)
  next
    case False
    show ?thesis
    proof (cases "shouldRotate out")
      case True
      show ?thesis by (simp only: unfolded if_not_P[OF False] if_P[OF True] rotatePath_step)
    next
      case noRotate: False
      show ?thesis
        by (simp only: unfolded if_not_P[OF False] if_not_P[OF noRotate] finish_step sameAttempt_refl)
    qed
  qed
qed

text \<open>The state in which the attempt of an iteration is made.\<close>

definition attempting :: "run_state \<Rightarrow> run_state" where
  "attempting st =
     st\<lparr>attemptedThinking := insert (thinkLevel st) (attemptedThinking st),
        attempts := attempts st + 1,
        trace := trace st @ [Attempted (profileIndex st) (lastProfileId st) (thinkLevel st)
                               (insert (thinkLevel st) (attemptedThinking st))]\<rparr>"

lemma iteration_step: "stepFrom k (attempting st) (iteration env k st)"
proof (cases "engine env (attempts st)")
  case (Threw err)
  then have "iteration env k st = Finished (attempting st) (Inl err)"
    by (simp add: iteration_def Let_def attempting_def)
  then show ?thesis by (simp add: stepFrom_Finished sameAttempt_refl)
next
  case (Completed out)
  show ?thesis
  proof (cases "promptError out")
    case None
    with Completed have "iteration env k st = assistantPath env k (attempting st) out"
      by (simp add: iteration_def Let_def attempting_def)
    then show ?thesis by (simp add: assistantPath_step)
  next
    case (Some errorText)
    with Completed have "iteration env k st =
        (if \<not> aborted out then promptErrorPath env k (attempting st) errorText
         else assistantPath env k (attempting st) out)"
      by (simp add: iteration_def Let_def attempting_def)
    then show ?thesis by (simp add: assistantPath_step promptErrorPath_step)
  qed
qed

lemma UNIV_ThinkLevel: "(UNIV :: ThinkLevel set) = {Off, Minimal, Low, Medium, High}"
proof -
  have "l \<in> {Off, Minimal, Low, Medium, High}" for l :: ThinkLevel by (cases l) simp_all
  then show ?thesis by blast
qed

lemma finite_ThinkLevel: "finite (A :: ThinkLevel set)"
proof -
  have "finite (UNIV :: ThinkLevel set)" by (simp add: UNIV_ThinkLevel)
  then show ?thesis by (rule rev_finite_subset) simp
qed

lemma card_ThinkLevel: "card (UNIV :: ThinkLevel set) = 5"
  by (simp add: UNIV_ThinkLevel)

lemma iteration_measure:
  assumes "iteration env k st = Continue st'"
  shows "length (profileCandidates k) - profileIndex st' < length (profileCandidates k) - profileIndex st
       \<or> (length (profileCandidates k) - profileIndex st' = length (profileCandidates k) - profileIndex st
          \<and> card (- insert (thinkLevel st') (attemptedThinking st'))
              < card (- insert (thinkLevel st) (attemptedThinking st)))"
proof -
  from iteration_step[of k st env] assms
  have "retried (attempting st) st' \<or> rotated k (attempting st) st'"
    by (simp add: stepFrom_def)
  then show ?thesis
  proof
    assume "rotated k (attempting st) st'"
    then show ?thesis by (auto simp: rotated_def attempting_def)
  next
    assume r: "retried (attempting st) st'"
    then have idx: "profileIndex st' = profileIndex st"
      and new: "thinkLevel st' \<notin> insert (thinkLevel st) (attemptedThinking st)"
      and att: "attemptedThinking st' = insert (thinkLevel st) (attemptedThinking st)"
      by (simp_all add: retried_def attempting_def)
    have "- insert (thinkLevel st') (attemptedThinking st') \<subset> - insert (thinkLevel st) (attemptedThinking st)"
      using new att by auto
    then have "card (- insert (thinkLevel st') (attemptedThinking st'))
              < card (- insert (thinkLevel st) (attemptedThinking st))"
      by (intro psubset_card_mono finite_ThinkLevel)
    with idx show ?thesis by simp
  qed
qed

text \<open>
  The loop \<^verbatim>\<open>while (true)\<close>: it ends when an iteration returns or throws. It is a total
  function: every iteration that continues either moves to a later candidate or, on the
  same candidate, leaves fewer levels unattempted.
\<close>

function run_loop ::
  "run_env \<Rightarrow> run_consts \<Rightarrow> run_state \<Rightarrow> run_state \<times> (error + EmbeddedPiRunResult)" where
  "run_loop env k st =
     (case iteration env k st of
        Continue st' \<Rightarrow> run_loop env k st'
      | Finished st' r \<Rightarrow> (st', r))"
  by pat_completeness auto
termination
proof (relation "measures [\<lambda>(env, k, st). length (profileCandidates k) - profileIndex st,
                           \<lambda>(env, k, st). card (- insert (thinkLevel st) (attemptedThinking st))]")
  show "wf (measures [\<lambda>(env, k, st). length (profileCandidates k) - profileIndex st,
                      \<lambda>(env, k, st). card (- insert (thinkLevel st) (attemptedThinking st))])"
    by simp
next
  fix env k st st'
  assume "iteration env k st = Continue st'"
  from iteration_measure[OF this]
  show "((env, k, st'), (env, k, st))
          \<in> measures [\<lambda>(env, k, st). length (profileCandidates k) - profileIndex st,
                       \<lambda>(env, k, st). card (- insert (thinkLevel st) (attemptedThinking st))]"
    by auto
qed

declare run_loop.simps [simp del]

text \<open>The error thrown for an explicit profile that is not among the candidates.\<close>

definition notConfiguredError :: "string \<Rightarrow> string \<Rightarrow> error" where
  "notConfiguredError profileId provider =
     Error (''Auth profile '' @ [CHR 0x22] @ profileId @ [CHR 0x22] @ '' is not configured for ''
            @ provider @ ''.'')"

text \<open>The call of \<^verbatim>\<open>resolveAuthProfileOrder\<close>, and the list it returned: when the call
  throws, the run throws with it before anything else is computed, and no list exists.\<close>

definition profileOrder :: "run_env \<Rightarrow> error + string list" where
  "profileOrder env =
     resolveAuthProfileOrder (normalizeProviderId env) (normalizeUndefined env) (config env)
       (ensuredStore env) (run_provider env) (map_option trim (authProfileId env)) (orderClock env)"

definition resolvedOrder :: "run_env \<Rightarrow> string list" where
  "resolvedOrder env = (case profileOrder env of Inl _ \<Rightarrow> [] | Inr order \<Rightarrow> order)"

definition constsOf :: "run_env \<Rightarrow> run_consts" where
  "constsOf env =
     \<lparr> explicitProfileId = map_option trim (authProfileId env),
       profileCandidates =
         (if length (resolvedOrder env) > 0 then map Some (resolvedOrder env) else [None]),
       initialThinkLevel = (case thinkLevelParam env of None \<Rightarrow> Off | Some l \<Rightarrow> l) \<rparr>"

definition initialState :: "run_env \<Rightarrow> run_state" where
  "initialState env =
     \<lparr> profileIndex = 0,
       thinkLevel = initialThinkLevel (constsOf env),
       attemptedThinking = {},
       apiKeyInfo = None,
       lastProfileId = None,
       authStore = ensuredStore env,
       attempts = 0,
       trace = [] \<rparr>"

text \<open>
  \<^verbatim>\<open>runEmbeddedPiAgent\<close>: the candidates are resolved with the explicit profile as the
  preferred one, and an error thrown there ends the run; an explicit profile that is not
  among them is an error; the first candidate's key is resolved, and when that fails the
  run either rethrows (the candidate is the explicit profile), or advances to a later
  candidate, or rethrows because there is none; then the loop runs. The result is the
  final state and what the run returned or threw.
\<close>

definition runEmbeddedPiAgent :: "run_env \<Rightarrow> run_state \<times> (error + EmbeddedPiRunResult)" where
  "runEmbeddedPiAgent env =
     (let k = constsOf env;
          st0 = initialState env
      in case profileOrder env of
           Inl err \<Rightarrow> (st0, Inl err)
         | Inr order \<Rightarrow>
             if truthy (explicitProfileId k) \<and> the (explicitProfileId k) \<notin> set order
             then (st0, Inl (notConfiguredError (the (explicitProfileId k)) (run_provider env)))
             else
               (case applyApiKeyInfo env st0 (profileCandidates k ! 0) of
                  (st1, None) \<Rightarrow> run_loop env k st1
                | (st1, Some err) \<Rightarrow>
                    if profileCandidates k ! 0 = explicitProfileId k then (st1, Inl err)
                    else
                      (case advanceAuthProfile env k st1 of
                         (st2, Inl err2) \<Rightarrow> (st2, Inl err2)
                       | (st2, Inr True) \<Rightarrow> run_loop env k st2
                       | (st2, Inr False) \<Rightarrow> (st2, Inl err))))"

subsection \<open>An invariant of the loop\<close>

text \<open>
  \<open>pairsOf\<close>: the candidate index and level of each attempt. \<open>midInv\<close> holds between the
  attempt and the decision that follows it, \<open>loopInv\<close> at the head of the loop, and
  \<open>runPost\<close> of the state a run ends in. The bound \<open>B\<close> is on the attempts made so far
  plus those that can still be made: five levels for each later candidate, and the
  levels not yet attempted on the current one.
\<close>

definition pairsOf :: "event list \<Rightarrow> (nat \<times> ThinkLevel) list" where
  "pairsOf es = map (\<lambda>(i, l, s). (i, l)) (attemptsOf es)"

definition midInv :: "run_consts \<Rightarrow> nat \<Rightarrow> run_state \<Rightarrow> bool" where
  "midInv k B st =
     (profileIndex st < length (profileCandidates k)
      \<and> (\<forall>i l s. (i, l, s) \<in> set (attemptsOf (trace st)) \<longrightarrow>
            l \<in> s \<and> (i < profileIndex st \<or> (i = profileIndex st \<and> l \<in> attemptedThinking st)))
      \<and> distinct (pairsOf (trace st))
      \<and> length (attemptsOf (trace st))
          + 5 * (length (profileCandidates k) - 1 - profileIndex st)
          + card (- attemptedThinking st) \<le> B)"

definition loopInv :: "run_consts \<Rightarrow> nat \<Rightarrow> run_state \<Rightarrow> bool" where
  "loopInv k B st = (midInv k B st \<and> thinkLevel st \<notin> attemptedThinking st)"

definition runPost :: "nat \<Rightarrow> run_state \<Rightarrow> bool" where
  "runPost B st =
     ((\<forall>i l s. (i, l, s) \<in> set (attemptsOf (trace st)) \<longrightarrow> l \<in> s)
      \<and> distinct (pairsOf (trace st))
      \<and> length (attemptsOf (trace st)) \<le> B)"

lemma attemptsOf_attempting:
  "attemptsOf (trace (attempting st)) =
     attemptsOf (trace st) @ [(profileIndex st, thinkLevel st, insert (thinkLevel st) (attemptedThinking st))]"
  by (simp add: attempting_def attemptsOf_append)

lemma card_compl_insert:
  fixes l :: ThinkLevel
  assumes "l \<notin> A"
  shows "Suc (card (- insert l A)) = card (- A)"
proof -
  have "- A = insert l (- insert l A)" using assms by auto
  moreover have "l \<notin> - insert l A" by simp
  ultimately show ?thesis
    by (metis card_insert_disjoint finite_ThinkLevel)
qed

lemma loopInv_attempting:
  assumes "loopInv k B st"
  shows "midInv k B (attempting st)"
proof -
  from assms have m: "midInv k B st" and fresh: "thinkLevel st \<notin> attemptedThinking st"
    by (simp_all add: loopInv_def)
  have idx: "profileIndex (attempting st) = profileIndex st"
    and att: "attemptedThinking (attempting st) = insert (thinkLevel st) (attemptedThinking st)"
    by (simp_all add: attempting_def)
  note tr = attemptsOf_attempting[of st]
  have a: "profileIndex (attempting st) < length (profileCandidates k)"
    using m by (simp add: midInv_def idx)
  have old: "\<And>i l s. (i, l, s) \<in> set (attemptsOf (trace st)) \<Longrightarrow>
            l \<in> s \<and> (i < profileIndex st \<or> (i = profileIndex st \<and> l \<in> attemptedThinking st))"
    using m unfolding midInv_def by blast
  have b: "\<forall>i l s. (i, l, s) \<in> set (attemptsOf (trace (attempting st))) \<longrightarrow>
            l \<in> s \<and> (i < profileIndex (attempting st)
                     \<or> (i = profileIndex (attempting st) \<and> l \<in> attemptedThinking (attempting st)))"
    unfolding tr idx att using old by auto
  have "(profileIndex st, thinkLevel st) \<notin> set (pairsOf (trace st))"
  proof
    assume "(profileIndex st, thinkLevel st) \<in> set (pairsOf (trace st))"
    then obtain s where "(profileIndex st, thinkLevel st, s) \<in> set (attemptsOf (trace st))"
      by (auto simp: pairsOf_def)
    from old[OF this] fresh show False by simp
  qed
  moreover have "distinct (pairsOf (trace st))" using m by (simp add: midInv_def)
  ultimately have c: "distinct (pairsOf (trace (attempting st)))"
    by (simp add: pairsOf_def tr)
  have "length (attemptsOf (trace st))
          + 5 * (length (profileCandidates k) - 1 - profileIndex st)
          + card (- attemptedThinking st) \<le> B"
    using m by (simp add: midInv_def)
  then have d: "length (attemptsOf (trace (attempting st)))
          + 5 * (length (profileCandidates k) - 1 - profileIndex (attempting st))
          + card (- attemptedThinking (attempting st)) \<le> B"
    unfolding tr idx att using card_compl_insert[OF fresh] by simp
  from a b c d show ?thesis unfolding midInv_def by blast
qed

lemma midInv_retried:
  assumes "midInv k B st" "retried st st'"
  shows "loopInv k B st'"
  using assms unfolding loopInv_def midInv_def retried_def pairsOf_def by simp

lemma midInv_rotated:
  assumes "midInv k B st" "rotated k st st'"
  shows "loopInv k B st'"
proof -
  from assms(2) have lt: "profileIndex st < profileIndex st'"
    and bound: "profileIndex st' < length (profileCandidates k)"
    and att: "attemptedThinking st' = {}"
    and tr: "attemptsOf (trace st') = attemptsOf (trace st)"
    by (simp_all add: rotated_def)
  have old: "\<And>i l s. (i, l, s) \<in> set (attemptsOf (trace st)) \<Longrightarrow>
            l \<in> s \<and> (i < profileIndex st \<or> (i = profileIndex st \<and> l \<in> attemptedThinking st))"
    using assms(1) unfolding midInv_def by blast
  have b: "\<forall>i l s. (i, l, s) \<in> set (attemptsOf (trace st')) \<longrightarrow>
            l \<in> s \<and> (i < profileIndex st' \<or> (i = profileIndex st' \<and> l \<in> attemptedThinking st'))"
    unfolding tr using old lt by force
  have c: "distinct (pairsOf (trace st'))"
    using assms(1) by (simp add: midInv_def pairsOf_def tr)
  have "card (- attemptedThinking st) \<ge> 0" by simp
  have five: "card (- attemptedThinking st') = 5" by (simp add: att card_ThinkLevel)
  have "5 * (length (profileCandidates k) - 1 - profileIndex st') + 5
          \<le> 5 * (length (profileCandidates k) - 1 - profileIndex st)"
    using lt bound by simp
  moreover have "length (attemptsOf (trace st))
          + 5 * (length (profileCandidates k) - 1 - profileIndex st)
          + card (- attemptedThinking st) \<le> B"
    using assms(1) by (simp add: midInv_def)
  ultimately have d: "length (attemptsOf (trace st'))
          + 5 * (length (profileCandidates k) - 1 - profileIndex st')
          + card (- attemptedThinking st') \<le> B"
    unfolding tr five by linarith
  from bound b c d have "midInv k B st'" unfolding midInv_def by blast
  then show ?thesis by (simp add: loopInv_def att)
qed

lemma midInv_finished:
  assumes "midInv k B st" "attemptsOf (trace st') = attemptsOf (trace st)"
  shows "runPost B st'"
proof -
  have "\<forall>i l s. (i, l, s) \<in> set (attemptsOf (trace st)) \<longrightarrow> l \<in> s"
    using assms(1) unfolding midInv_def by blast
  moreover have "distinct (pairsOf (trace st))" using assms(1) by (simp add: midInv_def)
  moreover have "length (attemptsOf (trace st)) \<le> B" using assms(1) by (simp add: midInv_def)
  ultimately show ?thesis by (simp add: runPost_def pairsOf_def assms(2))
qed

lemma run_loop_post:
  "loopInv k B st \<Longrightarrow> runPost B (fst (run_loop env k st))"
proof (induction env k st rule: run_loop.induct)
  case (1 env k st)
  note mid = loopInv_attempting[OF "1.prems"]
  note step = iteration_step[of k st env]
  show ?case
  proof (cases "iteration env k st")
    case (Continue st')
    with step have "retried (attempting st) st' \<or> rotated k (attempting st) st'"
      by (simp add: stepFrom_def)
    then have "loopInv k B st'" using mid midInv_retried midInv_rotated by blast
    from "1.IH"[OF Continue this] Continue show ?thesis
      by (simp add: run_loop.simps[of env k st])
  next
    case (Finished st' r)
    with step have "attemptsOf (trace st') = attemptsOf (trace (attempting st))"
      by (simp add: stepFrom_def)
    from midInv_finished[OF mid this] Finished show ?thesis
      by (simp add: run_loop.simps[of env k st])
  qed
qed

subsection \<open>The whole run\<close>

lemma candidates_nonempty: "0 < length (profileCandidates (constsOf env))"
  by (simp add: constsOf_def)

lemma initial_midInv:
  assumes "profileIndex st = 0" "attemptedThinking st = {}" "attemptsOf (trace st) = []"
  shows "midInv (constsOf env) (5 * length (profileCandidates (constsOf env))) st"
proof -
  have "0 < n \<Longrightarrow> 5 * (n - 1) + 5 \<le> 5 * n" for n :: nat by (cases n) simp_all
  from this[OF candidates_nonempty[of env]] show ?thesis
    using assms candidates_nonempty[of env]
    by (simp add: midInv_def pairsOf_def card_ThinkLevel)
qed

lemma no_attempts_post: "attemptsOf (trace st) = [] \<Longrightarrow> runPost B st"
  by (simp add: runPost_def pairsOf_def)

lemma initialState_facts:
  "profileIndex (initialState env) = 0" "attemptedThinking (initialState env) = {}"
  "attemptsOf (trace (initialState env)) = []" "trace (initialState env) = []"
  "authStore (initialState env) = ensuredStore env"
  by (simp_all add: initialState_def)

lemma runEmbeddedPiAgent_post:
  "runPost (5 * length (profileCandidates (constsOf env))) (fst (runEmbeddedPiAgent env))"
proof -
  let ?k = "constsOf env" and ?st0 = "initialState env"
  let ?B = "5 * length (profileCandidates ?k)"
  show ?thesis
  proof (cases "profileOrder env")
    case (Inl err)
    then have "fst (runEmbeddedPiAgent env) = ?st0"
      by (simp add: runEmbeddedPiAgent_def Let_def)
    then show ?thesis by (simp add: no_attempts_post initialState_facts)
  next
    case (Inr order)
  show ?thesis
  proof (cases "truthy (explicitProfileId ?k) \<and> the (explicitProfileId ?k) \<notin> set order")
    case True
    then have "fst (runEmbeddedPiAgent env) = ?st0"
      by (simp add: runEmbeddedPiAgent_def Let_def Inr)
    then show ?thesis by (simp add: no_attempts_post initialState_facts)
  next
    case configured: False
    obtain st1 e where a: "applyApiKeyInfo env ?st0 (profileCandidates ?k ! 0) = (st1, e)"
      by (cases "applyApiKeyInfo env ?st0 (profileCandidates ?k ! 0)")
    from applyApiKeyInfo_same[OF a]
    have st1: "profileIndex st1 = 0" "attemptedThinking st1 = {}" "attemptsOf (trace st1) = []"
      by (simp_all add: sameAttempt_def initialState_facts)
    note mid1 = initial_midInv[OF st1, of env]
    have unfolded: "runEmbeddedPiAgent env =
        (case e of
           None \<Rightarrow> run_loop env ?k st1
         | Some err \<Rightarrow>
             if profileCandidates ?k ! 0 = explicitProfileId ?k then (st1, Inl err)
             else
               (case advanceAuthProfile env ?k st1 of
                  (st2, Inl err2) \<Rightarrow> (st2, Inl err2)
                | (st2, Inr True) \<Rightarrow> run_loop env ?k st2
                | (st2, Inr False) \<Rightarrow> (st2, Inl err)))"
      by (simp only: runEmbeddedPiAgent_def Let_def Inr sum.case if_not_P[OF configured] a prod.case)
    show ?thesis
    proof (cases e)
      case None
      have "loopInv ?k ?B st1" using mid1 st1 by (simp add: loopInv_def)
      from run_loop_post[OF this] show ?thesis by (simp add: unfolded None)
    next
      case (Some err)
      show ?thesis
      proof (cases "profileCandidates ?k ! 0 = explicitProfileId ?k")
        case True
        then show ?thesis by (simp add: unfolded Some no_attempts_post st1)
      next
        case False
        obtain st2 r where adv: "advanceAuthProfile env ?k st1 = (st2, r)"
          by (cases "advanceAuthProfile env ?k st1")
        note c = advanceAuthProfile_cases[OF adv]
        show ?thesis
        proof (cases "r = Inr True")
          case True
          with c have "rotated ?k st1 st2" by simp
          from midInv_rotated[OF mid1 this] have "loopInv ?k ?B st2" .
          from run_loop_post[OF this] show ?thesis
            by (simp add: unfolded Some False adv True)
        next
          case nope: False
          with c have "sameAttempt st1 st2" by simp
          then have "attemptsOf (trace st2) = []" by (simp add: sameAttempt_def st1)
          then have post: "runPost ?B st2" by (rule no_attempts_post)
          from nope have "runEmbeddedPiAgent env = (st2, Inl err) \<or> (\<exists>err2. runEmbeddedPiAgent env = (st2, Inl err2))"
            by (cases r; cases "projr r") (simp_all add: unfolded Some False adv)
          with post show ?thesis by auto
        qed
      qed
    qed
  qed
qed
qed

lemma preferFirst_head:
  assumes "truthy pref" "the pref \<in> set (preferFirst pref xs)"
  shows "preferFirst pref xs = the pref # filter (\<lambda>e. e \<noteq> the pref) xs"
proof -
  from assms(1) obtain p where p: "pref = Some p" "p \<noteq> []"
    by (cases pref) (auto simp: truthy_def)
  show ?thesis
  proof (cases "p \<in> set xs")
    case True
    with p show ?thesis by (simp add: preferFirst_def)
  next
    case False
    with p have "preferFirst pref xs = xs" by (simp add: preferFirst_def)
    with assms(2) p False show ?thesis by simp
  qed
qed

lemma resolve_preferred_first:
  assumes "truthy pref"
      and "resolveAuthProfileOrder N U cfg store provider pref readings = Inr order"
      and "the pref \<in> set order"
  shows "\<exists>xs. order = the pref # filter (\<lambda>e. e \<noteq> the pref) xs"
proof -
  have "order = [] \<or> (\<exists>xs. order = preferFirst pref xs)"
    using assms(2)
    by (auto simp: resolveAuthProfileOrder_def Let_def split: if_splits sum.splits)
  with assms(1,3) show ?thesis using preferFirst_head by auto
qed

text \<open>An explicitly requested profile that is among the candidates is the first of them
  and none of the later ones.\<close>

lemma requested_profile_only_first:
  assumes "truthy (map_option trim (authProfileId env))"
      and "profileOrder env = Inr order"
      and "the (map_option trim (authProfileId env)) \<in> set order"
  shows "profileCandidates (constsOf env) ! 0 = explicitProfileId (constsOf env)"
    and "\<forall>i. 0 < i \<and> i < length (profileCandidates (constsOf env))
           \<longrightarrow> profileCandidates (constsOf env) ! i \<noteq> explicitProfileId (constsOf env)"
proof -
  let ?pref = "map_option trim (authProfileId env)"
  from assms(1) obtain p where p: "?pref = Some p" by (cases ?pref) (auto simp: truthy_def)
  from resolve_preferred_first[OF assms(1) assms(2)[unfolded profileOrder_def] assms(3)] p
  obtain xs where order: "order = p # filter (\<lambda>e. e \<noteq> p) xs" by auto
  have cands: "profileCandidates (constsOf env) = Some p # map Some (filter (\<lambda>e. e \<noteq> p) xs)"
    by (simp add: constsOf_def resolvedOrder_def assms(2) order)
  have ex: "explicitProfileId (constsOf env) = Some p"
    using p by (simp add: constsOf_def)
  show "profileCandidates (constsOf env) ! 0 = explicitProfileId (constsOf env)"
    by (simp add: cands ex)
  show "\<forall>i. 0 < i \<and> i < length (profileCandidates (constsOf env))
           \<longrightarrow> profileCandidates (constsOf env) ! i \<noteq> explicitProfileId (constsOf env)"
  proof (intro allI impI)
    fix i
    assume i: "0 < i \<and> i < length (profileCandidates (constsOf env))"
    then obtain j where j: "i = Suc j" "j < length (filter (\<lambda>e. e \<noteq> p) xs)"
      by (cases i) (auto simp: cands)
    then have "filter (\<lambda>e. e \<noteq> p) xs ! j \<in> set (filter (\<lambda>e. e \<noteq> p) xs)"
      by (intro nth_mem)
    then have "filter (\<lambda>e. e \<noteq> p) xs ! j \<noteq> p" by simp
    with j show "profileCandidates (constsOf env) ! i \<noteq> explicitProfileId (constsOf env)"
      by (simp add: cands ex)
  qed
qed

subsection \<open>Scenarios\<close>

text \<open>
  Provider \<^verbatim>\<open>p\<close> with the profiles \<^verbatim>\<open>p:a\<close> (an API key) and \<^verbatim>\<open>p:oauth1\<close> (OAuth), as
  in the specification's end-to-end scenario; no configuration; every key resolves. The
  resolver gives the candidates \<^verbatim>\<open>[p:oauth1, p:a]\<close>. \<open>succeeded\<close> is an attempt that
  ends with a normal assistant message and the reply \<^verbatim>\<open>done\<close>.
\<close>

definition two_profile_store :: AuthProfileStore where
  "two_profile_store =
     \<lparr> version = 1,
       profiles =
         [(''p:a'', ApiKey \<lparr> ak_provider = ''p'', key = ''sk-a'', ak_email = None \<rparr>),
          (''p:oauth1'',
           OAuth \<lparr> oa_provider = ''p'', access = ''acc1'', refresh = ''ref1'', expires = 9000,
                   oa_email = None, enterpriseUrl = None, projectId = None, accountId = None \<rparr>)],
       lastGood = [],
       usageStats = [] \<rparr>"

definition succeeded :: Attempt where
  "succeeded =
     Completed \<lparr> promptError = None, aborted = False, timedOut = False,
                 lastAssistant = Some \<lparr> stopReason = ''stop'', errorMessage = None \<rparr>,
                 otherItems = [\<lparr> item_text = ''done'', item_media = [], item_isError = False \<rparr>],
                 clock = 2000 \<rparr>"

text \<open>An attempt that ends with the assistant message carrying the given error.\<close>

definition assistantFailed :: "string \<Rightarrow> Attempt" where
  "assistantFailed message =
     Completed \<lparr> promptError = None, aborted = False, timedOut = False,
                 lastAssistant = Some \<lparr> stopReason = ''error'', errorMessage = Some message \<rparr>,
                 otherItems = [], clock = 1500 \<rparr>"

text \<open>An attempt in which \<^verbatim>\<open>session.prompt\<close> throws an error with the given message.\<close>

definition promptThrew :: "string \<Rightarrow> Attempt" where
  "promptThrew message =
     Completed \<lparr> promptError = Some message, aborted = False, timedOut = False,
                 lastAssistant = None, otherItems = [], clock = 1500 \<rparr>"

text \<open>An attempt that the timeout timer aborted.\<close>

definition attemptTimedOut :: Attempt where
  "attemptTimedOut =
     Completed \<lparr> promptError = None, aborted = True, timedOut = True,
                 lastAssistant = None, otherItems = [], clock = 1500 \<rparr>"

text \<open>\<^verbatim>\<open>normalizeThinkLevel\<close> on the five names of the levels.\<close>

definition levelOfName :: "string \<Rightarrow> ThinkLevel option" where
  "levelOfName s =
     (if s = ''off'' then Some Off
      else if s = ''minimal'' then Some Minimal
      else if s = ''low'' then Some Low
      else if s = ''medium'' then Some Medium
      else if s = ''high'' then Some High
      else None)"

text \<open>The run whose first attempt ends as given and whose later attempts succeed.\<close>

definition scenario :: "string option \<Rightarrow> Attempt \<Rightarrow> run_env" where
  "scenario requested first =
     \<lparr> config = \<lparr> auth_profiles = [], auth_order = [], agent_model_fallbacks = [] \<rparr>,
       run_provider = ''p'',
       authProfileId = requested,
       thinkLevelParam = None,
       ensuredStore = two_profile_store,
       orderClock = (\<lambda>n. 1000),
       getApiKeyForModel = (\<lambda>candidate store. Inr \<lparr> info_apiKey = ''key'', info_profileId = candidate \<rparr>),
       normalizeProviderId = id,
       normalizeUndefined = typeError,
       normalizeThinkLevel = levelOfName,
       engine = (\<lambda>n. if n = 0 then first else succeeded) \<rparr>"

text \<open>The same run when no key can be resolved for \<^verbatim>\<open>p:a\<close>.\<close>

definition keyless :: "run_env \<Rightarrow> run_env" where
  "keyless env =
     env\<lparr>getApiKeyForModel :=
           (\<lambda>candidate store.
              if candidate = Some ''p:a'' then Inl (Error ''No credentials found for profile p:a.'')
              else getApiKeyForModel env candidate store)\<rparr>"

text \<open>A context-overflow message whose token count contains the digits 429, and a
  message that lists the supported thinking levels.\<close>

definition overflowMessage :: string where
  "overflowMessage = ''context length exceeded: 8429 tokens''"

definition supportedMessage :: string where
  "supportedMessage = ''Supported values are: low, medium and high.''"

subsection \<open>Cooldown before rotation\<close>

lemma run_prompt_unauthorized:
  "(let R = runEmbeddedPiAgent (scenario None (promptThrew ''401 unauthorized''))
    in (trace (fst R), map_of (usageStats (authStore (fst R))) ''p:oauth1''))
   = ([KeyResolved (Some ''p:oauth1''), Attempted 0 (Some ''p:oauth1'') Off {Off},
       KeyResolved (Some ''p:a''), Attempted 1 (Some ''p:a'') Off {Off},
       MarkedGood ''p:a'', MarkedUsed ''p:a''],
      None)"
  by code_simp

lemma run_assistant_unauthorized:
  "(let R = runEmbeddedPiAgent (scenario None (assistantFailed ''401 unauthorized''))
    in (trace (fst R), map_of (usageStats (authStore (fst R))) ''p:oauth1''))
   = ([KeyResolved (Some ''p:oauth1''), Attempted 0 (Some ''p:oauth1'') Off {Off},
       CooldownMarked ''p:oauth1'',
       KeyResolved (Some ''p:a''), Attempted 1 (Some ''p:a'') Off {Off},
       MarkedGood ''p:a'', MarkedUsed ''p:a''],
      Some \<lparr> lastUsed = None, cooldownUntil = Some 61500, errorCount = Some 1 \<rparr>)"
  by code_simp

lemma unauthorized_is_auth_error: "isAuthErrorMessage ''401 unauthorized''"
  by code_simp

text \<open>
  C2. In an iteration whose attempt ends in an auth error, a rate-limit error or a
  timeout, the current profile is to be marked for cooldown before the next candidate is
  taken up. The branch that handles the last assistant message does so: its trace shows
  the cooldown of \<^verbatim>\<open>p:oauth1\<close> before the key of \<^verbatim>\<open>p:a\<close> is resolved, and the store
  then holds error count 1 and a cooldown of one minute from the clock reading 1500. The
  branch that handles an error thrown by the prompt does not: on the same auth error it
  takes up \<^verbatim>\<open>p:a\<close> and leaves no cooldown and no usage entry for \<^verbatim>\<open>p:oauth1\<close>.
\<close>

theorem prompt_error_rotation_skips_cooldown:
  "isAuthErrorMessage ''401 unauthorized''
   \<and> trace (fst (runEmbeddedPiAgent (scenario None (promptThrew ''401 unauthorized''))))
       = [KeyResolved (Some ''p:oauth1''), Attempted 0 (Some ''p:oauth1'') Off {Off},
          KeyResolved (Some ''p:a''), Attempted 1 (Some ''p:a'') Off {Off},
          MarkedGood ''p:a'', MarkedUsed ''p:a'']
   \<and> map_of (usageStats (authStore (fst (runEmbeddedPiAgent
                 (scenario None (promptThrew ''401 unauthorized''))))))
         ''p:oauth1'' = None
   \<and> trace (fst (runEmbeddedPiAgent (scenario None (assistantFailed ''401 unauthorized''))))
       = [KeyResolved (Some ''p:oauth1''), Attempted 0 (Some ''p:oauth1'') Off {Off},
          CooldownMarked ''p:oauth1'',
          KeyResolved (Some ''p:a''), Attempted 1 (Some ''p:a'') Off {Off},
          MarkedGood ''p:a'', MarkedUsed ''p:a'']
   \<and> map_of (usageStats (authStore (fst (runEmbeddedPiAgent
                 (scenario None (assistantFailed ''401 unauthorized''))))))
         ''p:oauth1''
       = Some \<lparr> lastUsed = None, cooldownUntil = Some 61500, errorCount = Some 1 \<rparr>"
  using run_prompt_unauthorized run_assistant_unauthorized unauthorized_is_auth_error
  by (simp add: Let_def)

subsection \<open>Context overflow\<close>

lemma overflowMessage_is_overflow: "isContextOverflowError overflowMessage"
  by code_simp

lemma run_assistant_overflow:
  "(let R = runEmbeddedPiAgent (scenario None (assistantFailed overflowMessage))
    in (trace (fst R), map_of (usageStats (authStore (fst R))) ''p:oauth1''))
   = ([KeyResolved (Some ''p:oauth1''), Attempted 0 (Some ''p:oauth1'') Off {Off},
       CooldownMarked ''p:oauth1'',
       KeyResolved (Some ''p:a''), Attempted 1 (Some ''p:a'') Off {Off},
       MarkedGood ''p:a'', MarkedUsed ''p:a''],
      Some \<lparr> lastUsed = None, cooldownUntil = Some 61500, errorCount = Some 1 \<rparr>)"
  by code_simp

lemma run_prompt_overflow:
  "(let R = runEmbeddedPiAgent (scenario None (promptThrew overflowMessage))
    in (trace (fst R), snd R))
   = ([KeyResolved (Some ''p:oauth1''), Attempted 0 (Some ''p:oauth1'') Off {Off}],
      Inr contextOverflowResult)"
  by code_simp

text \<open>
  C6. A failure that is a context overflow is to end the run with the message that
  tells the user to reset the session, without cooldown and without another candidate.
  The branch for an error thrown by the prompt tests for the overflow first and does
  so. The branch for the last assistant message tests for auth and rate-limit errors
  without testing for an overflow: the overflow message below contains \<^verbatim>\<open>429\<close> in its
  token count, so the run marks \<^verbatim>\<open>p:oauth1\<close> for cooldown and attempts \<^verbatim>\<open>p:a\<close>.
\<close>

theorem assistant_context_overflow_rotates:
  "isContextOverflowError overflowMessage
   \<and> trace (fst (runEmbeddedPiAgent (scenario None (assistantFailed overflowMessage))))
       = [KeyResolved (Some ''p:oauth1''), Attempted 0 (Some ''p:oauth1'') Off {Off},
          CooldownMarked ''p:oauth1'',
          KeyResolved (Some ''p:a''), Attempted 1 (Some ''p:a'') Off {Off},
          MarkedGood ''p:a'', MarkedUsed ''p:a'']
   \<and> map_of (usageStats (authStore (fst (runEmbeddedPiAgent (scenario None (assistantFailed overflowMessage))))))
         ''p:oauth1''
       = Some \<lparr> lastUsed = None, cooldownUntil = Some 61500, errorCount = Some 1 \<rparr>
   \<and> snd (runEmbeddedPiAgent (scenario None (promptThrew overflowMessage))) = Inr contextOverflowResult
   \<and> trace (fst (runEmbeddedPiAgent (scenario None (promptThrew overflowMessage))))
       = [KeyResolved (Some ''p:oauth1''), Attempted 0 (Some ''p:oauth1'') Off {Off}]"
  using overflowMessage_is_overflow run_assistant_overflow run_prompt_overflow
  by (simp add: Let_def)

subsection \<open>Retrying with another thinking level\<close>

lemma run_timed_out:
  "pairsOf (trace (fst (runEmbeddedPiAgent (scenario None attemptTimedOut)))) = [(0, Off), (1, Off)]"
  by code_simp

text \<open>
  C3, as stated, fails: within one run the same level can be attempted twice. When the
  run rotates to the next candidate it clears the attempted set and starts again from
  the initial level. Here the first attempt times out; both attempts of the run are
  made with the level \<^verbatim>\<open>off\<close>.
\<close>

theorem same_level_attempted_twice_counterexample:
  "pairsOf (trace (fst (runEmbeddedPiAgent (scenario None attemptTimedOut))))
     = [(0, Off), (1, Off)]
   \<and> \<not> distinct (map snd (pairsOf (trace (fst (runEmbeddedPiAgent (scenario None attemptTimedOut))))))"
  using run_timed_out by simp

text \<open>
  C3, amended. Within one run of \<^verbatim>\<open>runEmbeddedPiAgent\<close> no thinking level is attempted
  twice on the same candidate profile (after a rotation to another candidate the
  attempted set is empty again and the initial level is attempted anew): every attempted
  level is in the attempted set when the attempt is made, for every error message and
  every attempted set \<^verbatim>\<open>pickFallbackThinkingLevel\<close> returns \<^verbatim>\<open>undefined\<close> or a level
  outside the set, no pair of candidate and level occurs twice among the attempts, and
  the run makes at most five attempts, one for each level, per candidate; so the loop
  terminates.
\<close>

theorem thinking_level_retry_bounded:
  "(\<forall>normalizeLevel message attempted l.
       pickFallbackThinkingLevel normalizeLevel message attempted = Some l \<longrightarrow> l \<notin> attempted)
   \<and> distinct (pairsOf (trace (fst (runEmbeddedPiAgent env))))
   \<and> (\<forall>i l s. (i, l, s) \<in> set (attemptsOf (trace (fst (runEmbeddedPiAgent env)))) \<longrightarrow> l \<in> s)
   \<and> length (attemptsOf (trace (fst (runEmbeddedPiAgent env))))
        \<le> 5 * length (profileCandidates (constsOf env))"
proof -
  have "runPost (5 * length (profileCandidates (constsOf env))) (fst (runEmbeddedPiAgent env))"
    by (rule runEmbeddedPiAgent_post)
  then show ?thesis
    unfolding runPost_def using pickFallbackThinkingLevel_fresh by blast
qed

theorem thinking_level_retry_bounded_witness:
  "pickFallbackThinkingLevel levelOfName (Some supportedMessage) {Off} = Some Low
   \<and> Low \<notin> {Off}
   \<and> attemptsOf (trace (fst (runEmbeddedPiAgent (scenario None (assistantFailed supportedMessage)))))
       = [(0, Off, {Off}), (0, Low, {Low, Off})]
   \<and> Low \<in> {Low, Off}
   \<and> distinct (pairsOf (trace (fst (runEmbeddedPiAgent (scenario None (assistantFailed supportedMessage))))))
   \<and> length (attemptsOf (trace (fst (runEmbeddedPiAgent (scenario None (assistantFailed supportedMessage))))))
        \<le> 5 * length (profileCandidates (constsOf (scenario None (assistantFailed supportedMessage))))"
proof -
  let ?env = "scenario None (assistantFailed supportedMessage)"
  have pick: "pickFallbackThinkingLevel levelOfName (Some supportedMessage) {Off} = Some Low"
    by code_simp
  have tr: "attemptsOf (trace (fst (runEmbeddedPiAgent ?env))) = [(0, Off, {Off}), (0, Low, {Low, Off})]"
    by code_simp
  note t = thinking_level_retry_bounded[of ?env]
  from t pick have "Low \<notin> {Off}" by blast
  moreover from t tr have "Low \<in> {Low, Off}" by simp
  moreover from t have "distinct (pairsOf (trace (fst (runEmbeddedPiAgent ?env))))" by blast
  moreover from t have "length (attemptsOf (trace (fst (runEmbeddedPiAgent ?env))))
        \<le> 5 * length (profileCandidates (constsOf ?env))" by blast
  ultimately show ?thesis using pick tr by blast
qed

subsection \<open>An explicitly requested profile\<close>

text \<open>
  When the requested profile is not among the candidates of the provider, or its key
  cannot be resolved, the run fails at once with that error: no attempt is made and no
  other profile's key is resolved.
\<close>

lemma explicit_profile_resolution_failure:
  assumes "authProfileId env = Some requested" and "trim requested \<noteq> []"
      and "profileOrder env = Inr order"
  shows "(trim requested \<notin> set order \<longrightarrow>
            snd (runEmbeddedPiAgent env)
              = Inl (notConfiguredError (trim requested) (run_provider env))
            \<and> trace (fst (runEmbeddedPiAgent env)) = [])
       \<and> (\<forall>err. trim requested \<in> set order
              \<and> getApiKeyForModel env (Some (trim requested)) (ensuredStore env) = Inl err \<longrightarrow>
            snd (runEmbeddedPiAgent env) = Inl err
            \<and> trace (fst (runEmbeddedPiAgent env)) = [KeyFailed (Some (trim requested))])"
proof (intro conjI allI impI)
  let ?k = "constsOf env"
  have ex: "explicitProfileId ?k = Some (trim requested)" using assms by (simp add: constsOf_def)
  then have tr: "truthy (explicitProfileId ?k)" using assms(2) by (simp add: truthy_def)
  {
    assume "trim requested \<notin> set order"
    with ex tr have "runEmbeddedPiAgent env
        = (initialState env, Inl (notConfiguredError (trim requested) (run_provider env)))"
      by (simp add: runEmbeddedPiAgent_def Let_def assms(3))
    then show "snd (runEmbeddedPiAgent env)
              = Inl (notConfiguredError (trim requested) (run_provider env))"
      and "trace (fst (runEmbeddedPiAgent env)) = []"
      by (simp_all add: initialState_facts)
  }
  fix err
  assume h: "trim requested \<in> set order
              \<and> getApiKeyForModel env (Some (trim requested)) (ensuredStore env) = Inl err"
  have pref: "truthy (map_option trim (authProfileId env))"
       "the (map_option trim (authProfileId env)) = trim requested"
    using assms by (simp_all add: truthy_def)
  from h pref have mem: "the (map_option trim (authProfileId env)) \<in> set order" by simp
  from requested_profile_only_first(1)[OF pref(1) assms(3) mem] ex
  have cand: "profileCandidates ?k ! 0 = Some (trim requested)" by simp
  have a: "applyApiKeyInfo env (initialState env) (Some (trim requested))
             = ((initialState env)\<lparr>trace := [KeyFailed (Some (trim requested))]\<rparr>, Some err)"
    using h by (simp add: applyApiKeyInfo_def initialState_facts)
  have configured: "\<not> (truthy (explicitProfileId ?k) \<and> the (explicitProfileId ?k) \<notin> set order)"
    using h ex by simp
  have "runEmbeddedPiAgent env
          = ((initialState env)\<lparr>trace := [KeyFailed (Some (trim requested))]\<rparr>, Inl err)"
    unfolding runEmbeddedPiAgent_def Let_def assms(3) sum.case if_not_P[OF configured] cand a
    by (simp add: ex)
  then show "snd (runEmbeddedPiAgent env) = Inl err"
    and "trace (fst (runEmbeddedPiAgent env)) = [KeyFailed (Some (trim requested))]"
    by simp_all
qed

lemma run_requested_rate_limited:
  "(let R = runEmbeddedPiAgent (scenario (Some ''p:a'') (assistantFailed ''429 Too Many Requests''))
    in (trace (fst R), snd R))
   = ([KeyResolved (Some ''p:a''), Attempted 0 (Some ''p:a'') Off {Off},
       CooldownMarked ''p:a'',
       KeyResolved (Some ''p:oauth1''), Attempted 1 (Some ''p:oauth1'') Off {Off},
       MarkedGood ''p:oauth1'', MarkedUsed ''p:oauth1''],
      Inr \<lparr> payloads = Some [\<lparr> payload_text = Some ''done'', payload_mediaUrls = [],
                                   payload_mediaUrl = None, payload_isError = False \<rparr>],
              meta_aborted = Some False \<rparr>)"
  by code_simp

lemma run_requested_keyless:
  "(let R = runEmbeddedPiAgent (keyless (scenario (Some ''p:a'') succeeded))
    in (trace (fst R), snd R))
   = ([KeyFailed (Some ''p:a'')], Inl (Error ''No credentials found for profile p:a.''))"
  by code_simp

lemma run_requested_unknown:
  "(let R = runEmbeddedPiAgent (scenario (Some ''q:x'') succeeded)
    in (trace (fst R), snd R))
   = ([], Inl (notConfiguredError ''q:x'' ''p''))"
  by code_simp

text \<open>
  C7. A run for an explicitly requested profile is to fail rather than put another
  profile in its place. The run does so while the key is being resolved: a requested
  profile that is not among the candidates, or whose key cannot be resolved, ends the
  run with that error (the lemma above, for every run; here \<^verbatim>\<open>q:x\<close> is not a profile
  of the provider, and no key can be resolved for \<^verbatim>\<open>p:a\<close> in the second run). Once the
  key has been resolved it does not: \<^verbatim>\<open>p:a\<close> is requested, its attempt ends in a
  rate-limit error, and the run marks \<^verbatim>\<open>p:a\<close> for cooldown, rotates to \<^verbatim>\<open>p:oauth1\<close> and
  returns that profile's reply. The test that is to stop the rotation at the requested
  profile, \<^verbatim>\<open>candidate === explicitProfileId\<close> in \<^verbatim>\<open>advanceAuthProfile\<close>, looks at the
  later candidates only, and the requested profile is always the first one.
\<close>

theorem explicit_profile_rotated_away:
  "authProfileId (scenario (Some ''p:a'') (assistantFailed ''429 Too Many Requests'')) = Some ''p:a''
   \<and> trace (fst (runEmbeddedPiAgent (scenario (Some ''p:a'') (assistantFailed ''429 Too Many Requests''))))
       = [KeyResolved (Some ''p:a''), Attempted 0 (Some ''p:a'') Off {Off},
          CooldownMarked ''p:a'',
          KeyResolved (Some ''p:oauth1''), Attempted 1 (Some ''p:oauth1'') Off {Off},
          MarkedGood ''p:oauth1'', MarkedUsed ''p:oauth1'']
   \<and> snd (runEmbeddedPiAgent (scenario (Some ''p:a'') (assistantFailed ''429 Too Many Requests'')))
       = Inr \<lparr> payloads = Some [\<lparr> payload_text = Some ''done'', payload_mediaUrls = [],
                                    payload_mediaUrl = None, payload_isError = False \<rparr>],
               meta_aborted = Some False \<rparr>
   \<and> trace (fst (runEmbeddedPiAgent (keyless (scenario (Some ''p:a'') succeeded))))
       = [KeyFailed (Some ''p:a'')]
   \<and> snd (runEmbeddedPiAgent (keyless (scenario (Some ''p:a'') succeeded)))
       = Inl (Error ''No credentials found for profile p:a.'')
   \<and> trace (fst (runEmbeddedPiAgent (scenario (Some ''q:x'') succeeded))) = []
   \<and> snd (runEmbeddedPiAgent (scenario (Some ''q:x'') succeeded))
       = Inl (notConfiguredError ''q:x'' ''p'')"
  using run_requested_rate_limited run_requested_keyless run_requested_unknown
  by (simp add: Let_def scenario_def)

end
